theory Spec2Isabelle
  imports Main
begin

section \<open>Characters and strings as Python's \<open>re\<close> module sees them\<close>

text \<open>
  A query is a Python \<open>str\<close>. It is modelled as a \<open>string\<close> whose characters are the
  code points 0..255 (Latin-1); code points beyond that range are outside the model.
  On this range the character classes of \<open>re\<close> (Unicode mode, the default for \<open>str\<close>
  patterns) are the following.
\<close>

definition is_digit :: "char \<Rightarrow> bool" where
  \<comment> \<open>\<open>\d\<close>: the decimal digits.\<close>
  "is_digit c = (let n = (of_char c :: nat) in 48 \<le> n \<and> n \<le> 57)"

definition is_space :: "char \<Rightarrow> bool" where
  \<comment> \<open>\<open>\s\<close>: \<open>str.isspace\<close>, that is tab..carriage return, the separators 28..31,
      the space, NEL (133) and the no-break space (160).\<close>
  "is_space c = (let n = (of_char c :: nat) in
     (9 \<le> n \<and> n \<le> 13) \<or> (28 \<le> n \<and> n \<le> 32) \<or> n = 133 \<or> n = 160)"

definition is_word :: "char \<Rightarrow> bool" where
  \<comment> \<open>\<open>\w\<close>: \<open>str.isalnum\<close> or the underscore. Beyond ASCII these are the
      ordinal indicators, the micro sign, the superscript digits, the vulgar fractions and
      the accented letters (all of 192..255 but the multiplication and division signs).\<close>
  "is_word c = (let n = (of_char c :: nat) in
     (48 \<le> n \<and> n \<le> 57) \<or> (65 \<le> n \<and> n \<le> 90) \<or> n = 95 \<or> (97 \<le> n \<and> n \<le> 122) \<or>
     n = 170 \<or> n = 178 \<or> n = 179 \<or> n = 181 \<or> n = 185 \<or> n = 186 \<or>
     (188 \<le> n \<and> n \<le> 190) \<or> (192 \<le> n \<and> n \<le> 214) \<or> (216 \<le> n \<and> n \<le> 246) \<or>
     (248 \<le> n \<and> n \<le> 255))"

definition lower_char :: "char \<Rightarrow> char" where
  \<comment> \<open>\<open>str.lower\<close> on one character: A..Z and the accented capitals move up by 32,
      which sets the bit of weight 32.\<close>
  "lower_char c = (let n = (of_char c :: nat) in
     if (65 \<le> n \<and> n \<le> 90) \<or> (192 \<le> n \<and> n \<le> 214) \<or> (216 \<le> n \<and> n \<le> 222)
     then (case c of Char b0 b1 b2 b3 b4 b5 b6 b7 \<Rightarrow> Char b0 b1 b2 b3 b4 True b6 b7) else c)"

definition lower :: "string \<Rightarrow> string" where
  "lower s = map lower_char s"

definition digit_val :: "char \<Rightarrow> int" where
  "digit_val c = int (of_char c) - 48"

definition int_of_digits :: "string \<Rightarrow> int" where
  \<comment> \<open>\<open>int(s)\<close> on a string of decimal digits.\<close>
  "int_of_digits s = foldl (\<lambda>a c. 10 * a + digit_val c) 0 s"

section \<open>Regular expressions\<close>

text \<open>
  The fragment of \<open>re\<close> syntax the parser's patterns use. Repetition is only ever applied
  to a single character class (\<open>\s+\<close>, \<open>\d{1,2}\<close>, \<open>.*\<close>), which \<open>Rep\<close> records with
  its lower and optional upper bound; \<open>Opt\<close> is the greedy \<open>(?:...)?\<close> and \<open>r?\<close>;
  \<open>Grp\<close> is the capturing group (each pattern has at most one).
\<close>

datatype cclass = Digit | Space | AnyChar | OneOf string

datatype regex =
    Lit string
  | Cls cclass
  | WordB
  | Seq regex regex
  | Alt regex regex
  | Opt regex
  | Rep cclass nat "nat option"
  | Grp regex

fun in_class :: "cclass \<Rightarrow> char \<Rightarrow> bool" where
  "in_class Digit c = is_digit c"
| "in_class Space c = is_space c"
| "in_class AnyChar c = (c \<noteq> CHR 0x0A)"
| "in_class (OneOf cs) c = (c \<in> set cs)"

definition chr_eq :: "bool \<Rightarrow> char \<Rightarrow> char \<Rightarrow> bool" where
  \<comment> \<open>a pattern character against a text character, under \<open>re.IGNORECASE\<close> or not\<close>
  "chr_eq ic a c = (if ic then lower_char a = lower_char c else a = c)"

text \<open>
  A matcher state is the character before the current position (none at the start of the
  text), the text still to be read, and the text captured by the group so far.
\<close>

type_synonym mstate = "char option \<times> string \<times> string option"

definition word_before :: "char option \<Rightarrow> bool" where
  "word_before p = (case p of None \<Rightarrow> False | Some c \<Rightarrow> is_word c)"

definition word_after :: "string \<Rightarrow> bool" where
  "word_after s = (case s of [] \<Rightarrow> False | c # _ \<Rightarrow> is_word c)"

fun lit :: "bool \<Rightarrow> string \<Rightarrow> char option \<Rightarrow> string \<Rightarrow> (char option \<times> string) option" where
  "lit ic [] p s = Some (p, s)"
| "lit ic (a # w) p [] = None"
| "lit ic (a # w) p (c # cs) = (if chr_eq ic a c then lit ic w (Some c) cs else None)"

text \<open>Greedy bounded repetition of a class: the longest run first, then shorter ones.\<close>

fun rep :: "cclass \<Rightarrow> nat \<Rightarrow> nat option \<Rightarrow> char option \<Rightarrow> string \<Rightarrow> (char option \<times> string) list" where
  "rep cl lo hi p [] = (if lo = 0 then [(p, [])] else [])"
| "rep cl lo hi p (c # cs) =
     (if in_class cl c \<and> hi \<noteq> Some 0
      then rep cl (lo - 1) (map_option (\<lambda>h. h - 1) hi) (Some c) cs else [])
     @ (if lo = 0 then [(p, c # cs)] else [])"

text \<open>
  All the ways a pattern matches at a position, in the order a backtracking matcher
  tries them: the head of the list is the match \<open>re\<close> reports.
\<close>

fun rmatch :: "bool \<Rightarrow> regex \<Rightarrow> mstate \<Rightarrow> mstate list" where
  "rmatch ic (Lit w) (p, s, g) =
     (case lit ic w p s of None \<Rightarrow> [] | Some (p', s') \<Rightarrow> [(p', s', g)])"
| "rmatch ic (Cls cl) (p, s, g) =
     (case s of [] \<Rightarrow> [] | c # cs \<Rightarrow> if in_class cl c then [(Some c, cs, g)] else [])"
| "rmatch ic WordB (p, s, g) =
     (if word_before p \<noteq> word_after s then [(p, s, g)] else [])"
| "rmatch ic (Seq a b) st = concat (map (rmatch ic b) (rmatch ic a st))"
| "rmatch ic (Alt a b) st = rmatch ic a st @ rmatch ic b st"
| "rmatch ic (Opt a) st = rmatch ic a st @ [st]"
| "rmatch ic (Rep cl lo hi) (p, s, g) = map (\<lambda>(p', s'). (p', s', g)) (rep cl lo hi p s)"
| "rmatch ic (Grp a) (p, s, g) =
     map (\<lambda>(p', s', _). (p', s', Some (take (length s - length s') s))) (rmatch ic a (p, s, g))"

text \<open>\<open>re.search\<close>: the first start position, from the left, at which the pattern matches.\<close>

fun search_from :: "bool \<Rightarrow> regex \<Rightarrow> char option \<Rightarrow> string \<Rightarrow> mstate option" where
  "search_from ic r p [] = (case rmatch ic r (p, [], None) of [] \<Rightarrow> None | st # _ \<Rightarrow> Some st)"
| "search_from ic r p (c # cs) =
     (case rmatch ic r (p, c # cs, None) of
        [] \<Rightarrow> search_from ic r (Some c) cs
      | st # _ \<Rightarrow> Some st)"

definition re_search :: "bool \<Rightarrow> regex \<Rightarrow> string \<Rightarrow> mstate option" where
  "re_search ic r s = search_from ic r None s"

definition group1 :: "mstate \<Rightarrow> string" where
  \<comment> \<open>\<open>match.group(1)\<close>; every pattern it is applied to has its group on the match's path\<close>
  "group1 st = (case snd (snd st) of None \<Rightarrow> [] | Some g \<Rightarrow> g)"

fun seqs :: "regex list \<Rightarrow> regex" where
  "seqs [] = Lit []"
| "seqs [r] = r"
| "seqs (r # rs) = Seq r (seqs rs)"

fun alts :: "regex list \<Rightarrow> regex" where
  "alts [] = Lit []"
| "alts [r] = r"
| "alts (r # rs) = Alt r (alts rs)"

section \<open>Dates and times\<close>

text \<open>
  Python's \<open>datetime\<close>: the fields of the proleptic Gregorian calendar, a time of day
  and an optional time zone. Arithmetic with \<open>timedelta(days=k)\<close> goes through the
  ordinal of the date (day 1 is 0001-01-01), as in the standard library's
  \<open>_ymd2ord\<close> and \<open>_ord2ymd\<close>, and keeps the time of day and the zone.
\<close>

datatype py_error = ValueError | OverflowError

record tzinfo =
  zone :: string
  has_localize :: bool

record datetime =
  year :: int
  month :: int
  day :: int
  hour :: int
  minute :: int
  second :: int
  microsecond :: int
  tzinfo :: "tzinfo option"

definition is_leap :: "int \<Rightarrow> bool" where
  "is_leap y = (y mod 4 = 0 \<and> (y mod 100 \<noteq> 0 \<or> y mod 400 = 0))"

definition days_before_year :: "int \<Rightarrow> int" where
  "days_before_year y = (let y' = y - 1 in y' * 365 + y' div 4 - y' div 100 + y' div 400)"

definition DAYS_IN_MONTH :: "int list" where
  "DAYS_IN_MONTH = [-1, 31, 28, 31, 30, 31, 30, 31, 31, 30, 31, 30, 31]"

definition DAYS_BEFORE_MONTH :: "int list" where
  "DAYS_BEFORE_MONTH = [-1, 0, 31, 59, 90, 120, 151, 181, 212, 243, 273, 304, 334]"

definition days_in_month :: "int \<Rightarrow> int \<Rightarrow> int" where
  "days_in_month y m = (if m = 2 \<and> is_leap y then 29 else DAYS_IN_MONTH ! nat m)"

definition days_before_month :: "int \<Rightarrow> int \<Rightarrow> int" where
  "days_before_month y m = DAYS_BEFORE_MONTH ! nat m + (if m > 2 \<and> is_leap y then 1 else 0)"

definition ymd2ord :: "int \<Rightarrow> int \<Rightarrow> int \<Rightarrow> int" where
  "ymd2ord y m d = days_before_year y + days_before_month y m + d"

definition MAXORDINAL :: int where
  "MAXORDINAL = 3652059"

definition month_day :: "bool \<Rightarrow> int \<Rightarrow> int \<times> int" where
  \<comment> \<open>the second half of \<open>_ord2ymd\<close>: month and day of the zero-based day \<open>n\<close> of a year;
      the estimate \<open>(n + 50) >> 5\<close> of the month is exact or one too large\<close>
  "month_day leapyear n =
    (let m = (n + 50) div 32;
         preceding = DAYS_BEFORE_MONTH ! nat m + (if m > 2 \<and> leapyear then 1 else 0)
     in if preceding > n
        then (let m' = m - 1;
                  preceding' = preceding - (DAYS_IN_MONTH ! nat m' + (if m' = 2 \<and> leapyear then 1 else 0))
              in (m', n - preceding' + 1))
        else (m, n - preceding + 1))"

definition ord2ymd :: "int \<Rightarrow> int \<times> int \<times> int" where
  \<comment> \<open>\<open>_ord2ymd\<close>: 400-year, 100-year and 4-year cycles, then single years\<close>
  "ord2ymd n0 =
    (let n = n0 - 1;
         n400 = n div 146097; n = n mod 146097;
         y = n400 * 400 + 1;
         n100 = n div 36524; n = n mod 36524;
         n4 = n div 1461; n = n mod 1461;
         n1 = n div 365; n = n mod 365;
         y = y + n100 * 100 + n4 * 4 + n1
     in if n1 = 4 \<or> n100 = 4 then (y - 1, 12, 31)
        else (case month_day (n1 = 3 \<and> (n4 \<noteq> 24 \<or> n100 = 3)) n of (m, d) \<Rightarrow> (y, m, d)))"

definition valid_date :: "int \<Rightarrow> int \<Rightarrow> int \<Rightarrow> bool" where
  "valid_date y m d = (1 \<le> y \<and> y \<le> 9999 \<and> 1 \<le> m \<and> m \<le> 12 \<and> 1 \<le> d \<and> d \<le> days_in_month y m)"

definition toordinal :: "datetime \<Rightarrow> int" where
  "toordinal d = ymd2ord (year d) (month d) (day d)"

definition weekday :: "datetime \<Rightarrow> int" where
  \<comment> \<open>0 is Monday, 6 is Sunday\<close>
  "weekday d = (toordinal d + 6) mod 7"

definition add_days :: "datetime \<Rightarrow> int \<Rightarrow> py_error + datetime" where
  \<comment> \<open>\<open>d + timedelta(days=k)\<close>; out of the calendar's range it raises OverflowError\<close>
  "add_days d k =
    (let n = toordinal d + k in
     if 0 < n \<and> n \<le> MAXORDINAL
     then (case ord2ymd n of (y, m, dd) \<Rightarrow> Inr (d\<lparr>year := y, month := m, day := dd\<rparr>))
     else Inl OverflowError)"

definition at_midnight :: "datetime \<Rightarrow> datetime" where
  \<comment> \<open>\<open>d.replace(hour=0, minute=0, second=0, microsecond=0)\<close>\<close>
  "at_midnight d = d\<lparr>hour := 0, minute := 0, second := 0, microsecond := 0\<rparr>"

definition at_end_of_day :: "datetime \<Rightarrow> datetime" where
  \<comment> \<open>\<open>d.replace(hour=23, minute=59, second=59, microsecond=999999)\<close>\<close>
  "at_end_of_day d = d\<lparr>hour := 23, minute := 59, second := 59, microsecond := 999999\<rparr>"

definition replace_year :: "datetime \<Rightarrow> int \<Rightarrow> py_error + datetime" where
  \<comment> \<open>\<open>d.replace(year=y)\<close>; ValueError when the new date does not exist\<close>
  "replace_year d y =
    (if valid_date y (month d) (day d) then Inr (d\<lparr>year := y\<rparr>) else Inl ValueError)"

section \<open>The rule tables of \<open>CalendarQueryParser\<close>\<close>

abbreviation ws1 :: regex where
  "ws1 \<equiv> Rep Space 1 None"

abbreviation any0 :: regex where
  "any0 \<equiv> Rep AnyChar 0 None"

abbreviation sep :: regex where
  "sep \<equiv> Cls (OneOf ''/-'')"

abbreviation digits :: "nat \<Rightarrow> nat \<Rightarrow> regex" where
  "digits lo hi \<equiv> Rep Digit lo (Some hi)"

definition month_names :: regex where
  "month_names = alts (map Lit [''january'', ''february'', ''march'', ''april'', ''may'', ''june'',
     ''july'', ''august'', ''september'', ''october'', ''november'', ''december''])"

definition month_abbrs :: regex where
  "month_abbrs = alts (map Lit [''jan'', ''feb'', ''mar'', ''apr'', ''may'', ''jun'',
     ''jul'', ''aug'', ''sep'', ''oct'', ''nov'', ''dec''])"

datatype category = Today | Tomorrow | Yesterday | This_week | Next_week | Upcoming | Specific_date

fun patterns :: "category \<Rightarrow> regex list" where
  "patterns Today =
    [seqs [WordB, Lit ''today'', WordB],
     seqs [WordB, Lit ''this'', ws1, Lit ''day'', WordB],
     seqs [WordB, Lit ''what'', any0, Lit ''today'', WordB],
     seqs [WordB, Lit ''today'', any0, Lit ''schedule'', WordB],
     seqs [WordB, Lit ''today'', any0, Lit ''events'', WordB],
     seqs [WordB, Lit ''today'', any0, Lit ''appointments'', WordB]]"
| "patterns Tomorrow =
    [seqs [WordB, Lit ''tomorrow'', WordB],
     seqs [WordB, Lit ''next'', ws1, Lit ''day'', WordB],
     seqs [WordB, Lit ''what'', any0, Lit ''tomorrow'', WordB],
     seqs [WordB, Lit ''tomorrow'', any0, Lit ''schedule'', WordB],
     seqs [WordB, Lit ''tomorrow'', any0, Lit ''events'', WordB],
     seqs [WordB, Lit ''tomorrow'', any0, Lit ''appointments'', WordB]]"
| "patterns Yesterday =
    [seqs [WordB, Lit ''yesterday'', WordB],
     seqs [WordB, Lit ''previous'', ws1, Lit ''day'', WordB],
     seqs [WordB, Lit ''yesterday'', any0, Lit ''events'', WordB]]"
| "patterns This_week =
    [seqs [WordB, Lit ''this'', ws1, Lit ''week'', WordB],
     seqs [WordB, Lit ''this'', ws1, Lit ''week'', any0, Lit ''events'', WordB],
     seqs [WordB, Lit ''this'', ws1, Lit ''week'', any0, Lit ''schedule'', WordB],
     seqs [WordB, Lit ''weekly'', ws1, Lit ''schedule'', WordB]]"
| "patterns Next_week =
    [seqs [WordB, Lit ''next'', ws1, Lit ''week'', WordB],
     seqs [WordB, Lit ''next'', ws1, Lit ''week'', any0, Lit ''events'', WordB],
     seqs [WordB, Lit ''next'', ws1, Lit ''week'', any0, Lit ''schedule'', WordB]]"
| "patterns Upcoming =
    [seqs [WordB, Lit ''upcoming'', WordB],
     seqs [WordB, Lit ''coming'', ws1, Lit ''up'', WordB],
     seqs [WordB, Lit ''next'', any0, Lit ''events'', WordB],
     seqs [WordB, Lit ''future'', any0, Lit ''events'', WordB],
     seqs [WordB, Lit ''what'', any0, Lit ''next'', WordB]]"
| "patterns Specific_date =
    [seqs [WordB, digits 1 2, sep, digits 1 2, sep, digits 2 4, WordB],
     seqs [WordB, digits 4 4, sep, digits 1 2, sep, digits 1 2, WordB],
     seqs [WordB, month_names, ws1, digits 1 2, WordB],
     seqs [WordB, month_abbrs, ws1, digits 1 2, WordB],
     seqs [WordB, digits 1 2, ws1, month_names, WordB],
     seqs [WordB, digits 1 2, ws1, month_abbrs, WordB]]"

definition day_patterns :: "(string \<times> regex list) list" where
  \<comment> \<open>a \<open>dict\<close>, listed in its insertion order, which is the order its items are iterated in\<close>
  "day_patterns =
    [(''monday'', [seqs [WordB, Lit ''monday'', WordB], seqs [WordB, Lit ''mon'', WordB]]),
     (''tuesday'', [seqs [WordB, Lit ''tuesday'', WordB], seqs [WordB, Lit ''tue'', WordB],
                    seqs [WordB, Lit ''tues'', WordB]]),
     (''wednesday'', [seqs [WordB, Lit ''wednesday'', WordB], seqs [WordB, Lit ''wed'', WordB]]),
     (''thursday'', [seqs [WordB, Lit ''thursday'', WordB], seqs [WordB, Lit ''thu'', WordB],
                     seqs [WordB, Lit ''thur'', WordB], seqs [WordB, Lit ''thurs'', WordB]]),
     (''friday'', [seqs [WordB, Lit ''friday'', WordB], seqs [WordB, Lit ''fri'', WordB]]),
     (''saturday'', [seqs [WordB, Lit ''saturday'', WordB], seqs [WordB, Lit ''sat'', WordB]]),
     (''sunday'', [seqs [WordB, Lit ''sunday'', WordB], seqs [WordB, Lit ''sun'', WordB]])]"

definition date_patterns :: "regex list" where
  \<comment> \<open>the local table of \<open>_extract_specific_date\<close>: the literal, with its optional year, is group 1\<close>
  "date_patterns =
    [seqs [WordB, Grp (seqs [digits 1 2, sep, digits 1 2, sep, digits 2 4]), WordB],
     seqs [WordB, Grp (seqs [digits 4 4, sep, digits 1 2, sep, digits 1 2]), WordB],
     seqs [WordB, Grp (seqs [month_names, ws1, digits 1 2,
                             Opt (seqs [Opt (Lit '',''), ws1, digits 4 4])]), WordB],
     seqs [WordB, Grp (seqs [month_abbrs, ws1, digits 1 2,
                             Opt (seqs [Opt (Lit '',''), ws1, digits 4 4])]), WordB],
     seqs [WordB, Grp (seqs [digits 1 2, ws1, month_names, Opt (seqs [ws1, digits 4 4])]), WordB],
     seqs [WordB, Grp (seqs [digits 1 2, ws1, month_abbrs, Opt (seqs [ws1, digits 4 4])]), WordB]]"

definition rx_next_week :: regex where
  "rx_next_week = seqs [WordB, Lit ''next'', ws1, Lit ''week'', WordB]"

definition rx_this_week :: regex where
  "rx_this_week = seqs [WordB, Lit ''this'', ws1, Lit ''week'', WordB]"

definition rx_next_n_days :: regex where
  \<comment> \<open>\<open>\bnext\s+(\d+)\s+days?\b\<close>\<close>
  "rx_next_n_days = seqs [WordB, Lit ''next'', ws1, Grp (Rep Digit 1 None), ws1,
                          Lit ''day'', Opt (Lit ''s''), WordB]"

definition rx_n_days :: regex where
  \<comment> \<open>\<open>\b(\d+)\s+days?\b\<close>\<close>
  "rx_n_days = seqs [WordB, Grp (Rep Digit 1 None), ws1, Lit ''day'', Opt (Lit ''s''), WordB]"

definition rx_max_results :: regex where
  \<comment> \<open>\<open>\b(?:show|first|next)\s+(?:me\s+)?(\d+)\s+(?:events?|appointments?|meetings?)\b\<close>\<close>
  "rx_max_results =
     seqs [WordB, alts [Lit ''show'', Lit ''first'', Lit ''next''], ws1,
           Opt (seqs [Lit ''me'', ws1]), Grp (Rep Digit 1 None), ws1,
           alts [seqs [Lit ''event'', Opt (Lit ''s'')],
                 seqs [Lit ''appointment'', Opt (Lit ''s'')],
                 seqs [Lit ''meeting'', Opt (Lit ''s'')]],
           WordB]"

definition weekdays :: "(string \<times> int) list" where
  "weekdays = [(''monday'', 0), (''tuesday'', 1), (''wednesday'', 2), (''thursday'', 3),
               (''friday'', 4), (''saturday'', 5), (''sunday'', 6)]"

section \<open>The parser\<close>

text \<open>
  What the parser takes from its surroundings: the default time zone fixed when the
  object is built, the zone database of \<open>pytz\<close> (\<open>None\<close> is \<open>UnknownTimeZoneError\<close>),
  the system clock read through \<open>datetime.now(tz)\<close>, the date parser of \<open>dateutil\<close> and
  the \<open>localize\<close> method of a \<open>pytz\<close> zone. The two library calls raise nothing but
  \<open>ValueError\<close> (of which \<open>ParserError\<close> is a subclass) and \<open>OverflowError\<close> on a
  string and on a naive \<open>datetime\<close>. A call is taken to be instantaneous: every reading
  of the clock during one call sees the same instant.
\<close>

record env =
  default_timezone :: tzinfo
  pytz_timezone :: "string \<Rightarrow> tzinfo option"
  datetime_now :: "tzinfo \<Rightarrow> datetime"
  dateutil_parse :: "string \<Rightarrow> py_error + datetime"
  tz_localize :: "tzinfo \<Rightarrow> datetime \<Rightarrow> py_error + datetime"

datatype intent =
    Specific_date_intent datetime
  | Date_range_intent datetime datetime
  | Upcoming_events_intent int int

record parsed_query =
  intent :: intent
  timezone :: "string option"
  original_query :: string

definition parse_timezone :: "env \<Rightarrow> string option \<Rightarrow> tzinfo" where
  "parse_timezone env timezone_str =
    (case timezone_str of
       None \<Rightarrow> default_timezone env
     | Some s \<Rightarrow>
         if s = [] then default_timezone env
         else (case pytz_timezone env s of
                 Some tz \<Rightarrow> tz
               | None \<Rightarrow> default_timezone env))"

fun matches_patterns :: "string \<Rightarrow> regex list \<Rightarrow> bool" where
  "matches_patterns text [] = False"
| "matches_patterns text (pattern # rest) =
     (if re_search True pattern text \<noteq> None then True else matches_patterns text rest)"

definition extract_number_of_days :: "string \<Rightarrow> int" where
  "extract_number_of_days text =
    (if re_search False rx_next_week text \<noteq> None \<or> re_search False rx_this_week text \<noteq> None
     then 7
     else case re_search False rx_next_n_days text of
            Some m \<Rightarrow> int_of_digits (group1 m)
          | None \<Rightarrow>
             (case re_search False rx_n_days text of
                Some m \<Rightarrow> int_of_digits (group1 m)
              | None \<Rightarrow> 7))"

definition extract_max_results :: "string \<Rightarrow> int" where
  "extract_max_results text =
    (case re_search False rx_max_results text of
       Some m \<Rightarrow> min (int_of_digits (group1 m)) 50
     | None \<Rightarrow> 10)"

definition parse_literal :: "env \<Rightarrow> tzinfo \<Rightarrow> string \<Rightarrow> py_error + datetime" where
  \<comment> \<open>the body of the \<open>try\<close> block of \<open>_extract_specific_date\<close>\<close>
  "parse_literal env tz date_str =
    (case dateutil_parse env date_str of
       Inl e \<Rightarrow> Inl e
     | Inr parsed_date \<Rightarrow>
        (case (if year parsed_date = 1900
               then replace_year parsed_date (year (datetime_now env tz))
               else Inr parsed_date) of
           Inl e \<Rightarrow> Inl e
         | Inr parsed_date \<Rightarrow>
            (case (if tzinfo parsed_date = None
                   then (if has_localize tz then tz_localize env tz parsed_date
                         else Inr (parsed_date\<lparr>tzinfo := Some tz\<rparr>))
                   else Inr parsed_date) of
               Inl e \<Rightarrow> Inl e
             | Inr parsed_date \<Rightarrow> Inr (at_midnight parsed_date))))"

fun extract_from :: "env \<Rightarrow> string \<Rightarrow> tzinfo \<Rightarrow> regex list \<Rightarrow> datetime option" where
  \<comment> \<open>the loop of \<open>_extract_specific_date\<close> over the patterns still to be tried\<close>
  "extract_from env text tz [] = None"
| "extract_from env text tz (pattern # rest) =
     (case re_search True pattern text of
        None \<Rightarrow> extract_from env text tz rest
      | Some m \<Rightarrow>
         (case parse_literal env tz (group1 m) of
            Inr d \<Rightarrow> Some d
          | Inl e \<Rightarrow> extract_from env text tz rest))"

definition extract_specific_date :: "env \<Rightarrow> string \<Rightarrow> tzinfo \<Rightarrow> datetime option" where
  "extract_specific_date env text tz = extract_from env text tz date_patterns"

fun first_day :: "string \<Rightarrow> (string \<times> regex list) list \<Rightarrow> string option" where
  "first_day text [] = None"
| "first_day text ((d, ps) # rest) =
     (if matches_patterns text ps then Some d else first_day text rest)"

definition extract_day_of_week :: "string \<Rightarrow> string option" where
  "extract_day_of_week text = first_day text day_patterns"

definition get_next_weekday :: "datetime \<Rightarrow> string \<Rightarrow> py_error + datetime" where
  "get_next_weekday current_date target_day =
    (case map_of weekdays (lower target_day) of
       None \<Rightarrow> Inr current_date
     | Some target_weekday \<Rightarrow>
        (let days_ahead = target_weekday - weekday current_date;
             days_ahead = (if days_ahead \<le> 0 then days_ahead + 7 else days_ahead)
         in case add_days current_date days_ahead of
              Inl e \<Rightarrow> Inl e
            | Inr target_date \<Rightarrow> Inr (at_midnight target_date)))"

definition result :: "intent \<Rightarrow> string option \<Rightarrow> string \<Rightarrow> py_error + parsed_query" where
  "result i tz q = Inr \<lparr>intent = i, timezone = tz, original_query = q\<rparr>"

definition weekday_or_default :: "datetime \<Rightarrow> string \<Rightarrow> string option \<Rightarrow> string \<Rightarrow> py_error + parsed_query" where
  \<comment> \<open>the end of \<open>parse_query\<close>, reached when no \<open>if\<close> branch has returned\<close>
  "weekday_or_default now query_lower tz query =
    (case extract_day_of_week query_lower of
       Some day_of_week \<Rightarrow>
         (case get_next_weekday now day_of_week of
            Inl e \<Rightarrow> Inl e
          | Inr target_date \<Rightarrow> result (Specific_date_intent target_date) tz query)
     | None \<Rightarrow> result (Upcoming_events_intent 7 10) tz query)"

definition parse_query :: "env \<Rightarrow> string \<Rightarrow> string option \<Rightarrow> py_error + parsed_query" where
  "parse_query env query tzs =
    (let query_lower = lower query;
         tz = parse_timezone env tzs;
         now = datetime_now env tz
     in if matches_patterns query_lower (patterns Today)
        then result (Specific_date_intent (at_midnight now)) tzs query
        else if matches_patterns query_lower (patterns Tomorrow)
        then (case add_days now 1 of
                Inl e \<Rightarrow> Inl e
              | Inr tomorrow \<Rightarrow> result (Specific_date_intent (at_midnight tomorrow)) tzs query)
        else if matches_patterns query_lower (patterns Yesterday)
        then (case add_days now (- 1) of
                Inl e \<Rightarrow> Inl e
              | Inr yesterday \<Rightarrow> result (Specific_date_intent (at_midnight yesterday)) tzs query)
        else if matches_patterns query_lower (patterns This_week)
        then (case add_days now (- weekday now) of
                Inl e \<Rightarrow> Inl e
              | Inr start_of_week \<Rightarrow>
                 (case add_days start_of_week 6 of
                    Inl e \<Rightarrow> Inl e
                  | Inr end_of_week \<Rightarrow>
                     result (Date_range_intent (at_midnight start_of_week)
                                               (at_end_of_day end_of_week)) tzs query))
        else if matches_patterns query_lower (patterns Next_week)
        then (case add_days now (7 - weekday now) of
                Inl e \<Rightarrow> Inl e
              | Inr next_monday \<Rightarrow>
                 (case add_days next_monday 6 of
                    Inl e \<Rightarrow> Inl e
                  | Inr next_sunday \<Rightarrow>
                     result (Date_range_intent (at_midnight next_monday)
                                               (at_end_of_day next_sunday)) tzs query))
        else if matches_patterns query_lower (patterns Upcoming)
        then result (Upcoming_events_intent (extract_number_of_days query_lower)
                                            (extract_max_results query_lower)) tzs query
        else if matches_patterns query_lower (patterns Specific_date)
        then (case extract_specific_date env query tz of
                Some parsed_date \<Rightarrow> result (Specific_date_intent parsed_date) tzs query
              | None \<Rightarrow> weekday_or_default now query_lower tzs query)
        else weekday_or_default now query_lower tzs query)"

section \<open>The specification's reading of classification and dispatch\<close>

text \<open>
  The specification describes \<open>parse_query\<close> as a classification followed by a dispatch
  table. The two are written down here from its words, to be compared with the chain of
  \<open>if\<close> and \<open>elif\<close> of the source.
\<close>

definition category_order :: "category list" where
  "category_order = [Today, Tomorrow, Yesterday, This_week, Next_week, Upcoming, Specific_date]"

definition spec_classify :: "string \<Rightarrow> category option" where
  \<comment> \<open>the first category, in the fixed order, one of whose patterns matches the lowercased query\<close>
  "spec_classify query =
     List.find (\<lambda>c. matches_patterns (lower query) (patterns c)) category_order"

definition spec_dispatch ::
    "env \<Rightarrow> string \<Rightarrow> string option \<Rightarrow> category option \<Rightarrow> py_error + parsed_query" where
  "spec_dispatch env query tzs cat =
    (let tz = parse_timezone env tzs; now = datetime_now env tz in
     case cat of
       Some Today \<Rightarrow> result (Specific_date_intent (at_midnight now)) tzs query
     | Some Tomorrow \<Rightarrow>
         (case add_days now 1 of
            Inl e \<Rightarrow> Inl e
          | Inr d \<Rightarrow> result (Specific_date_intent (at_midnight d)) tzs query)
     | Some Yesterday \<Rightarrow>
         (case add_days now (- 1) of
            Inl e \<Rightarrow> Inl e
          | Inr d \<Rightarrow> result (Specific_date_intent (at_midnight d)) tzs query)
     | Some This_week \<Rightarrow>
         (case add_days now (- weekday now) of
            Inl e \<Rightarrow> Inl e
          | Inr monday \<Rightarrow>
             (case add_days monday 6 of
                Inl e \<Rightarrow> Inl e
              | Inr sunday \<Rightarrow>
                 result (Date_range_intent (at_midnight monday) (at_end_of_day sunday)) tzs query))
     | Some Next_week \<Rightarrow>
         (case add_days now (7 - weekday now) of
            Inl e \<Rightarrow> Inl e
          | Inr monday \<Rightarrow>
             (case add_days monday 6 of
                Inl e \<Rightarrow> Inl e
              | Inr sunday \<Rightarrow>
                 result (Date_range_intent (at_midnight monday) (at_end_of_day sunday)) tzs query))
     | Some Upcoming \<Rightarrow>
         result (Upcoming_events_intent (extract_number_of_days (lower query))
                                        (extract_max_results (lower query))) tzs query
     | Some Specific_date \<Rightarrow>
         (case extract_specific_date env query tz of
            Some d \<Rightarrow> result (Specific_date_intent d) tzs query
          | None \<Rightarrow> weekday_or_default now (lower query) tzs query)
     | None \<Rightarrow> weekday_or_default now (lower query) tzs query)"

definition contains_word :: "string \<Rightarrow> string \<Rightarrow> bool" where
  \<comment> \<open>the text contains \<open>w\<close> as a whole word: no word character touches it on either side\<close>
  "contains_word w text =
     (\<exists>pre post. text = pre @ w @ post \<and>
        (pre = [] \<or> \<not> is_word (last pre)) \<and> (post = [] \<or> \<not> is_word (hd post)))"

section \<open>What a group can capture\<close>

text \<open>
  In the patterns whose group is read with \<open>int\<close>, the group is a run of digits: the
  first two predicates say so of a pattern and of a matcher state. The third says that
  no match of a pattern can leave the group unset.
\<close>

fun grp_digit :: "regex \<Rightarrow> bool" where
  "grp_digit (Grp (Rep Digit lo hi)) = True"
| "grp_digit (Grp r) = False"
| "grp_digit (Seq a b) = (grp_digit a \<and> grp_digit b)"
| "grp_digit (Alt a b) = (grp_digit a \<and> grp_digit b)"
| "grp_digit (Opt a) = grp_digit a"
| "grp_digit r = True"

definition cap_digits :: "mstate \<Rightarrow> bool" where
  "cap_digits st = (case snd (snd st) of None \<Rightarrow> True | Some g \<Rightarrow> list_all is_digit g)"

fun has_grp :: "regex \<Rightarrow> bool" where
  \<comment> \<open>every match of the pattern passes through a group\<close>
  "has_grp (Grp r) = True"
| "has_grp (Seq a b) = (has_grp a \<or> has_grp b)"
| "has_grp (Alt a b) = (has_grp a \<and> has_grp b)"
| "has_grp r = False"

section \<open>Concrete surroundings for the examples\<close>

definition utc :: tzinfo where
  "utc = \<lparr>zone = ''UTC'', has_localize = True\<rparr>"

definition kiritimati :: tzinfo where
  "kiritimati = \<lparr>zone = ''Pacific/Kiritimati'', has_localize = True\<rparr>"

definition clock_at :: "int \<Rightarrow> int \<Rightarrow> int \<Rightarrow> tzinfo \<Rightarrow> datetime" where
  \<comment> \<open>a clock that shows half past ten on the given day\<close>
  "clock_at y m d tz = \<lparr>year = y, month = m, day = d, hour = 10, minute = 30, second = 15,
     microsecond = 250000, tzinfo = Some tz\<rparr>"

definition naive_date :: "int \<Rightarrow> int \<Rightarrow> int \<Rightarrow> datetime" where
  "naive_date y m d = \<lparr>year = y, month = m, day = d, hour = 0, minute = 0, second = 0,
     microsecond = 0, tzinfo = None\<rparr>"

definition dateutil_sample :: "int \<Rightarrow> string \<Rightarrow> py_error + datetime" where
  \<comment> \<open>\<open>dateutil.parser.parse\<close> on four literals, on a host whose local date lies in year
      \<open>host_year\<close>: the parser takes every field the string lacks from its default, the
      host's local \<open>datetime.now()\<close> at midnight; a day the month does not have is a
      \<open>ParserError\<close>\<close>
  "dateutil_sample host_year s =
    (if s = ''march 5'' then Inr (naive_date host_year 3 5)
     else if s = ''2025-08-12'' then Inr (naive_date 2025 8 12)
     else if s = ''1/1/1900'' then Inr (naive_date 1900 1 1)
     else Inl ValueError)"

definition sample_env :: "(tzinfo \<Rightarrow> datetime) \<Rightarrow> int \<Rightarrow> env" where
  "sample_env clock host_year =
    \<lparr>default_timezone = utc,
     pytz_timezone = map_of [(''UTC'', utc), (''Pacific/Kiritimati'', kiritimati)],
     datetime_now = clock,
     dateutil_parse = dateutil_sample host_year,
     tz_localize = (\<lambda>tz d. Inr (d\<lparr>tzinfo := Some tz\<rparr>))\<rparr>"

definition new_year_clock :: "tzinfo \<Rightarrow> datetime" where
  \<comment> \<open>the instant 2025-12-31 12:00 UTC, which is 2026-01-01 02:00 on Kiritimati (UTC+14)\<close>
  "new_year_clock tz =
    (if zone tz = ''Pacific/Kiritimati''
     then \<lparr>year = 2026, month = 1, day = 1, hour = 2, minute = 0, second = 0,
           microsecond = 0, tzinfo = Some tz\<rparr>
     else \<lparr>year = 2025, month = 12, day = 31, hour = 12, minute = 0, second = 0,
           microsecond = 0, tzinfo = Some tz\<rparr>)"

declare patterns.simps [simp del]

section \<open>The calendar: ordinals and dates are inverse to each other\<close>

lemma month_day_ok:
  assumes "0 \<le> n" "n < 365"
  shows "case month_day l n of (m, d) \<Rightarrow> 1 \<le> m \<and> m \<le> 12 \<and> 1 \<le> d \<and>
     d \<le> (if m = 2 \<and> l then 29 else DAYS_IN_MONTH ! nat m) \<and>
     DAYS_BEFORE_MONTH ! nat m + (if m > 2 \<and> l then 1 else 0) + d = n + 1"
proof -
  define k where "k = (n + 50) div 32"
  have kb: "1 \<le> k" "k \<le> 12" using assms by (auto simp: k_def)
  then have "k \<in> {1,2,3,4,5,6,7,8,9,10,11,12}" by (simp del: One_nat_def) presburger
  moreover have "32 * k - 50 \<le> n" "n < 32 * k - 18" unfolding k_def by linarith+
  ultimately show ?thesis using assms
    unfolding month_day_def Let_def k_def[symmetric]
    by (elim insertE emptyE) (simp_all add: DAYS_BEFORE_MONTH_def DAYS_IN_MONTH_def split: if_splits)
qed

lemma dby_decomp:
  assumes "0 \<le> a" "0 \<le> b" "b \<le> 3" "0 \<le> c" "c \<le> 24" "0 \<le> e" "e \<le> 3"
  shows "days_before_year (400 * a + 100 * b + 4 * c + e + 1) = 146097 * a + 36524 * b + 1461 * c + 365 * e"
proof -
  let ?Y = "400 * a + 100 * b + 4 * c + e"
  have 1: "?Y div 4 = 100 * a + 25 * b + c"
    by (rule int_div_pos_eq[where r = e]) (use assms in auto)
  have 2: "?Y div 100 = 4 * a + b"
    by (rule int_div_pos_eq[where r = "4 * c + e"]) (use assms in auto)
  have 3: "?Y div 400 = a"
    by (rule int_div_pos_eq[where r = "100 * b + 4 * c + e"]) (use assms in auto)
  show ?thesis unfolding days_before_year_def Let_def using 1 2 3 by simp
qed

lemma leap_decomp:
  assumes "0 \<le> a" "0 \<le> b" "b \<le> 3" "0 \<le> c" "c \<le> 24" "0 \<le> e" "e \<le> 3"
  shows "is_leap (400 * a + 100 * b + 4 * c + e + 1) = (e = 3 \<and> (c \<noteq> 24 \<or> b = 3))"
proof -
  let ?Y = "400 * a + 100 * b + 4 * c + e + 1"
  have m4: "?Y mod 4 = (if e = 3 then 0 else e + 1)"
  proof (cases "e = 3")
    case True
    have "?Y mod 4 = 0"
      by (rule int_mod_pos_eq[where q = "100 * a + 25 * b + c + 1"]) (use True in auto)
    then show ?thesis using True by simp
  next
    case False
    have "?Y mod 4 = e + 1"
      by (rule int_mod_pos_eq[where q = "100 * a + 25 * b + c"]) (use False assms in auto)
    then show ?thesis using False by simp
  qed
  have m100: "?Y mod 100 = (if e = 3 \<and> c = 24 then 0 else 4 * c + e + 1)"
  proof (cases "e = 3 \<and> c = 24")
    case True
    have "?Y mod 100 = 0"
      by (rule int_mod_pos_eq[where q = "4 * a + b + 1"]) (use True in auto)
    then show ?thesis using True by simp
  next
    case False
    have "?Y mod 100 = 4 * c + e + 1"
      by (rule int_mod_pos_eq[where q = "4 * a + b"]) (use False assms in auto)
    then show ?thesis using False by auto
  qed
  have m400: "?Y mod 400 = (if e = 3 \<and> c = 24 \<and> b = 3 then 0 else 100 * b + 4 * c + e + 1)"
  proof (cases "e = 3 \<and> c = 24 \<and> b = 3")
    case True
    have "?Y mod 400 = 0"
      by (rule int_mod_pos_eq[where q = "a + 1"]) (use True in auto)
    then show ?thesis using True by simp
  next
    case False
    have "?Y mod 400 = 100 * b + 4 * c + e + 1"
      by (rule int_mod_pos_eq[where q = "a"]) (use False assms in auto)
    then show ?thesis using False by auto
  qed
  show ?thesis unfolding is_leap_def m4 m100 m400 using assms by auto
qed


lemma ord2ymd_md:
  fixes n :: int
  defines "a \<equiv> (n - 1) div 146097" and "r1 \<equiv> (n - 1) mod 146097"
  defines "b \<equiv> r1 div 36524" and "r2 \<equiv> r1 mod 36524"
  defines "c \<equiv> r2 div 1461" and "r3 \<equiv> r2 mod 1461"
  defines "e \<equiv> r3 div 365" and "r4 \<equiv> r3 mod 365"
  shows "ord2ymd n =
     (if e = 4 \<or> b = 4 then (400 * a + 100 * b + 4 * c + e, 12, 31)
      else (case month_day (e = 3 \<and> (c \<noteq> 24 \<or> b = 3)) r4 of
              (m, d) \<Rightarrow> (400 * a + 100 * b + 4 * c + e + 1, m, d)))"
proof -
  have "ord2ymd n =
     (if e = 4 \<or> b = 4 then (a * 400 + 1 + b * 100 + c * 4 + e - 1, 12, 31)
      else (case month_day (e = 3 \<and> (c \<noteq> 24 \<or> b = 3)) r4 of
              (m, d) \<Rightarrow> (a * 400 + 1 + b * 100 + c * 4 + e, m, d)))"
    unfolding ord2ymd_def Let_def
    unfolding a_def[symmetric] r1_def[symmetric]
    unfolding b_def[symmetric] r2_def[symmetric]
    unfolding c_def[symmetric] r3_def[symmetric]
    unfolding e_def[symmetric] r4_def[symmetric]
    by (rule refl)
  then show ?thesis by (simp add: algebra_simps)
qed

lemma ord2ymd_ok:
  assumes "1 \<le> n"
  shows "case ord2ymd n of (y, m, d) \<Rightarrow>
           ymd2ord y m d = n \<and> 1 \<le> y \<and> 1 \<le> m \<and> m \<le> 12 \<and> 1 \<le> d \<and> d \<le> days_in_month y m"
proof -
  define a where "a = (n - 1) div 146097"
  define r1 where "r1 = (n - 1) mod 146097"
  define b where "b = r1 div 36524"
  define r2 where "r2 = r1 mod 36524"
  define c where "c = r2 div 1461"
  define r3 where "r3 = r2 mod 1461"
  define e where "e = r3 div 365"
  define r4 where "r4 = r3 mod 365"
  have n1: "n - 1 = 146097 * a + r1" and r1: "0 \<le> r1" "r1 < 146097"
    unfolding a_def r1_def by simp_all
  have a0: "0 \<le> a" unfolding a_def using assms by simp
  have e1: "r1 = 36524 * b + r2" and r2: "0 \<le> r2" "r2 < 36524"
    unfolding b_def r2_def by simp_all
  have e2: "r2 = 1461 * c + r3" and r3: "0 \<le> r3" "r3 < 1461"
    unfolding c_def r3_def by simp_all
  have e3: "r3 = 365 * e + r4" and r4: "0 \<le> r4" "r4 < 365"
    unfolding e_def r4_def by simp_all
  have b0: "0 \<le> b" "b \<le> 4" using r1 unfolding b_def by simp_all
  have c0: "0 \<le> c" "c \<le> 24" using r2 unfolding c_def by simp_all
  have e0: "0 \<le> e" "e \<le> 4" using r3 unfolding e_def by simp_all
  have eq: "ord2ymd n =
     (if e = 4 \<or> b = 4 then (400 * a + 100 * b + 4 * c + e, 12, 31)
      else (case month_day (e = 3 \<and> (c \<noteq> 24 \<or> b = 3)) r4 of
              (m, d) \<Rightarrow> (400 * a + 100 * b + 4 * c + e + 1, m, d)))"
    unfolding a_def r1_def b_def r2_def c_def r3_def e_def r4_def by (rule ord2ymd_md)
  define yv where "yv = 400 * a + 100 * b + 4 * c + e"
  have eq': "ord2ymd n =
     (if e = 4 \<or> b = 4 then (yv, 12, 31)
      else (case month_day (e = 3 \<and> (c \<noteq> 24 \<or> b = 3)) r4 of (m, d) \<Rightarrow> (yv + 1, m, d)))"
    unfolding eq yv_def by simp
  show ?thesis
  proof (cases "b = 4")
    case True
    then have z: "r2 = 0" "c = 0" "r3 = 0" "e = 0" "r4 = 0" "r1 = 146096"
      using e1 e2 e3 r1 r2 r3 r4 c0 e0 by auto
    have y: "yv = 400 * a + 100 * 3 + 4 * 24 + 3 + 1"
      using True z by (simp add: yv_def)
    have "days_before_year (400 * a + 100 * 3 + 4 * 24 + 3 + 1) =
            146097 * a + 36524 * 3 + 1461 * 24 + 365 * 3"
      by (rule dby_decomp) (use a0 in simp_all)
    then have d: "days_before_year yv = 146097 * a + 145731"
      unfolding y by simp
    have "is_leap (400 * a + 100 * 3 + 4 * 24 + 3 + 1) = (3 = (3::int) \<and> (24 \<noteq> (24::int) \<or> 3 = (3::int)))"
      by (rule leap_decomp) (use a0 in simp_all)
    then have l: "is_leap yv" unfolding y by simp
    have y1: "1 \<le> yv" using y a0 by simp
    have res: "ord2ymd n = (yv, 12, 31)" unfolding eq' using True by simp
    have nn: "n = 146097 * a + 146097" using n1 z by simp
    show ?thesis unfolding res using d l nn y1
      by (simp add: ymd2ord_def days_before_month_def days_in_month_def
            DAYS_BEFORE_MONTH_def DAYS_IN_MONTH_def)
  next
    case b4: False
    then have b3: "b \<le> 3" using b0 by simp
    show ?thesis
    proof (cases "e = 4")
      case True
      then have z: "r3 = 1460" "r4 = 0" using e3 r3 r4 by auto
      then have c23: "c \<le> 23" using e2 r2 by auto
      have y: "yv = 400 * a + 100 * b + 4 * c + 3 + 1"
        using True by (simp add: yv_def)
      have "days_before_year (400 * a + 100 * b + 4 * c + 3 + 1) =
                 146097 * a + 36524 * b + 1461 * c + 365 * 3"
        by (rule dby_decomp) (use a0 b0 b3 c0 in simp_all)
      then have d: "days_before_year yv = 146097 * a + 36524 * b + 1461 * c + 1095"
        unfolding y by simp
      have "is_leap (400 * a + 100 * b + 4 * c + 3 + 1) = (3 = (3::int) \<and> (c \<noteq> 24 \<or> b = 3))"
        by (rule leap_decomp) (use a0 b0 b3 c0 in simp_all)
      then have l: "is_leap yv" unfolding y using c23 by simp
      have y1: "1 \<le> yv" using y a0 b0 c0 by simp
      have res: "ord2ymd n = (yv, 12, 31)" unfolding eq' using True by simp
      have nn: "n = 146097 * a + 36524 * b + 1461 * c + 1461" using n1 e1 e2 z by simp
      show ?thesis unfolding res using d l nn y1
        by (simp add: ymd2ord_def days_before_month_def days_in_month_def
              DAYS_BEFORE_MONTH_def DAYS_IN_MONTH_def)
    next
      case False
      then have e3': "e \<le> 3" using e0 by simp
      define l where "l = (e = 3 \<and> (c \<noteq> 24 \<or> b = 3))"
      obtain m dd where mdeq: "month_day l r4 = (m, dd)" by (cases "month_day l r4")
      have mdok: "1 \<le> m" "m \<le> 12" "1 \<le> dd"
          "dd \<le> (if m = 2 \<and> l then 29 else DAYS_IN_MONTH ! nat m)"
          "DAYS_BEFORE_MONTH ! nat m + (if m > 2 \<and> l then 1 else 0) + dd = r4 + 1"
        using month_day_ok[OF r4, of l] mdeq by simp_all
      have "days_before_year (400 * a + 100 * b + 4 * c + e + 1) =
                 146097 * a + 36524 * b + 1461 * c + 365 * e"
        by (rule dby_decomp) (use a0 b0 b3 c0 e0 e3' in simp_all)
      then have d: "days_before_year (yv + 1) = 146097 * a + 36524 * b + 1461 * c + 365 * e"
        unfolding yv_def by simp
      have "is_leap (400 * a + 100 * b + 4 * c + e + 1) = (e = 3 \<and> (c \<noteq> 24 \<or> b = 3))"
        by (rule leap_decomp) (use a0 b0 b3 c0 e0 e3' in simp_all)
      then have lp: "is_leap (yv + 1) = l"
        unfolding l_def yv_def by simp
      have y1: "1 \<le> yv + 1" using a0 b0 c0 e0 by (simp add: yv_def)
      have res: "ord2ymd n = (yv + 1, m, dd)"
        unfolding eq' using False b4 mdeq l_def by simp
      have nn: "n = 146097 * a + 36524 * b + 1461 * c + 365 * e + r4 + 1"
        using n1 e1 e2 e3 by simp
      have ord: "ymd2ord (yv + 1) m dd = n"
        unfolding ymd2ord_def days_before_month_def d lp nn using mdok(5) by simp
      have dim: "dd \<le> days_in_month (yv + 1) m"
        unfolding days_in_month_def lp using mdok(4) by simp
      show ?thesis unfolding res using ord dim mdok(1,2,3) y1 by simp
    qed
  qed
qed

lemma dby_lower:
  assumes "10000 \<le> y"
  shows "3652059 \<le> days_before_year y"
proof -
  define Y where "Y = y - 1"
  define q4 where "q4 = Y div 4"
  define q100 where "q100 = Y div 100"
  define q400 where "q400 = Y div 400"
  have Y: "9999 \<le> Y" using assms Y_def by simp
  have 1: "2499 \<le> q4" unfolding q4_def using zdiv_mono1[of 9999 Y 4] Y by simp
  have 3: "24 \<le> q400" unfolding q400_def using zdiv_mono1[of 9999 Y 400] Y by simp
  have "100 * q100 \<le> Y" unfolding q100_def by simp
  then have 2: "q100 \<le> Y - 9900" using Y by linarith
  have "days_before_year y = Y * 365 + q4 - q100 + q400"
    unfolding days_before_year_def Let_def Y_def q4_def q100_def q400_def by simp
  then show ?thesis using 1 2 3 Y by linarith
qed

lemma days_before_month_nonneg:
  assumes "1 \<le> m" "m \<le> 12"
  shows "0 \<le> days_before_month y m"
proof -
  from assms have "m \<in> {1,2,3,4,5,6,7,8,9,10,11,12}" by (simp del: One_nat_def) presburger
  then show ?thesis
    by (elim insertE emptyE) (simp_all add: days_before_month_def DAYS_BEFORE_MONTH_def)
qed

lemma add_days_Inr:
  assumes "0 < toordinal d + k" "toordinal d + k \<le> MAXORDINAL"
  shows "\<exists>d'. add_days d k = Inr d' \<and> toordinal d' = toordinal d + k \<and>
           valid_date (year d') (month d') (day d') \<and>
           hour d' = hour d \<and> minute d' = minute d \<and> second d' = second d \<and>
           microsecond d' = microsecond d \<and> tzinfo d' = tzinfo d"
proof -
  define n where "n = toordinal d + k"
  obtain y m dd where o: "ord2ymd n = (y, m, dd)" by (cases "ord2ymd n") auto
  have n1: "1 \<le> n" using assms(1) n_def by simp
  have ok: "ymd2ord y m dd = n" "1 \<le> y" "1 \<le> m" "m \<le> 12" "1 \<le> dd" "dd \<le> days_in_month y m"
    using ord2ymd_ok[OF n1] o by simp_all
  have "y \<le> 9999"
  proof (rule ccontr)
    assume "\<not> y \<le> 9999"
    then have "3652059 \<le> days_before_year y" using dby_lower[of y] by simp
    moreover have "0 \<le> days_before_month y m" using days_before_month_nonneg ok by simp
    ultimately have "3652059 < ymd2ord y m dd" using ok(5) unfolding ymd2ord_def by linarith
    then show False using ok(1) assms(2) n_def by (simp add: MAXORDINAL_def)
  qed
  then have v: "valid_date y m dd" using ok by (simp add: valid_date_def)
  have "add_days d k = Inr (d\<lparr>year := y, month := m, day := dd\<rparr>)"
    unfolding add_days_def Let_def n_def[symmetric] using assms n_def o by simp
  then show ?thesis using ok(1) v n_def by (simp add: toordinal_def)
qed

lemma weekday_range: "0 \<le> weekday d \<and> weekday d < 7"
  by (simp add: weekday_def)

lemma weekdays_lower:
  assumes "(dn, k) \<in> set weekdays"
  shows "map_of weekdays (lower dn) = Some k \<and> 0 \<le> k \<and> k \<le> 6"
proof -
  from assms have "(dn, k) \<in> {(''monday'', 0), (''tuesday'', 1), (''wednesday'', 2), (''thursday'', 3),
               (''friday'', 4), (''saturday'', 5), (''sunday'', 6)}"
    by (simp add: weekdays_def)
  then show ?thesis
    by (elim insertE emptyE) (simp_all add: weekdays_def lower_def lower_char_def)
qed

text \<open>The equations that evaluate the calendar and the matcher on concrete inputs.\<close>

lemmas cal_eval = toordinal_def ymd2ord_def days_before_year_def days_before_month_def
  DAYS_BEFORE_MONTH_def DAYS_IN_MONTH_def is_leap_def ord2ymd_def month_day_def Let_def
  MAXORDINAL_def weekday_def add_days_def at_midnight_def at_end_of_day_def clock_at_def

lemmas rx_eval = re_search_def word_before_def word_after_def is_word_def is_digit_def
  is_space_def chr_eq_def lower_def lower_char_def month_names_def month_abbrs_def
  patterns.simps group1_def

section \<open>Searching for a whole word\<close>

lemma search_from_complete:
  assumes "rmatch ic r (if pre = [] then p else Some (last pre), suf, None) \<noteq> []"
  shows "search_from ic r p (pre @ suf) \<noteq> None"
  using assms
proof (induction pre arbitrary: p)
  case Nil
  then show ?case by (cases suf) (auto split: list.splits)
next
  case (Cons c pre)
  have "rmatch ic r (if pre = [] then Some c else Some (last pre), suf, None) \<noteq> []"
    using Cons.prems by (simp split: if_splits)
  from Cons.IH[OF this] show ?case by (auto split: list.splits)
qed

lemma lit_self:
  "lit ic w p (w @ post) = Some (if w = [] then p else Some (last w), post)"
  by (induction w arbitrary: p) (auto simp: chr_eq_def)

lemma rmatch_word:
  assumes "w \<noteq> []" "is_word (hd w)" "is_word (last w)" "\<not> word_before p" "\<not> word_after post"
  shows "rmatch ic (seqs [WordB, Lit w, WordB]) (p, w @ post, g) = [(Some (last w), post, g)]"
proof -
  have "word_after (w @ post)" using assms(1,2) by (cases w) (auto simp: word_after_def)
  then show ?thesis using assms by (simp add: lit_self word_before_def)
qed

lemma contains_word_search:
  assumes "contains_word w text" "w \<noteq> []" "is_word (hd w)" "is_word (last w)"
  shows "re_search ic (seqs [WordB, Lit w, WordB]) text \<noteq> None"
proof -
  from assms(1) obtain pre post where t: "text = pre @ w @ post"
    and b: "pre = [] \<or> \<not> is_word (last pre)" and a: "post = [] \<or> \<not> is_word (hd post)"
    unfolding contains_word_def by blast
  have nb: "\<not> word_before (if pre = [] then None else Some (last pre))"
    using b by (auto simp: word_before_def)
  have na: "\<not> word_after post" using a by (cases post) (auto simp: word_after_def)
  have "rmatch ic (seqs [WordB, Lit w, WordB]) (if pre = [] then None else Some (last pre), w @ post, None) \<noteq> []"
    using rmatch_word[OF assms(2,3,4) nb na] by simp
  then show ?thesis unfolding re_search_def t by (rule search_from_complete)
qed

lemma parse_query_dispatch:
  "parse_query env q tzs = spec_dispatch env q tzs (spec_classify q)"
  unfolding parse_query_def spec_dispatch_def spec_classify_def category_order_def Let_def
  by simp

section \<open>The next occurrence of a weekday\<close>

text \<open>
  Claim C6. For every current time and every canonical weekday name,
  \<open>_get_next_weekday\<close> adds \<open>delta = target - now.weekday()\<close> days, plus 7 when
  \<open>delta \<le> 0\<close>: the date returned is one to seven days after today, never today, it
  falls on the weekday asked for, and its time of day is midnight. (The current date is
  taken at least a week before the end of the calendar, 9999-12-31.)
\<close>

theorem next_weekday_strictly_future:
  assumes "(target_day, k) \<in> set weekdays"
    and "0 \<le> toordinal now" and "toordinal now + 7 \<le> MAXORDINAL"
  shows "\<exists>d. get_next_weekday now target_day = Inr d \<and>
           toordinal d = toordinal now +
             (if k - weekday now \<le> 0 then k - weekday now + 7 else k - weekday now) \<and>
           toordinal now < toordinal d \<and> toordinal d \<le> toordinal now + 7 \<and>
           weekday d = k \<and>
           hour d = 0 \<and> minute d = 0 \<and> second d = 0 \<and> microsecond d = 0 \<and>
           tzinfo d = tzinfo now"
proof -
  have k: "map_of weekdays (lower target_day) = Some k" "0 \<le> k" "k \<le> 6"
    using weekdays_lower[OF assms(1)] by simp_all
  define delta where
    "delta = (if k - weekday now \<le> 0 then k - weekday now + 7 else k - weekday now)"
  have w: "0 \<le> weekday now" "weekday now < 7" using weekday_range by simp_all
  have dl: "1 \<le> delta" "delta \<le> 7" using k w by (auto simp: delta_def)
  have "0 < toordinal now + delta" "toordinal now + delta \<le> MAXORDINAL"
    using dl assms by linarith+
  from add_days_Inr[OF this] obtain d' where d':
    "add_days now delta = Inr d'" "toordinal d' = toordinal now + delta"
    "tzinfo d' = tzinfo now"
    by blast
  have g: "get_next_weekday now target_day = Inr (at_midnight d')"
    unfolding get_next_weekday_def Let_def using k(1) d'(1) by (simp add: delta_def)
  have t: "toordinal (at_midnight d') = toordinal d'"
    by (simp add: toordinal_def at_midnight_def)
  define q where "q = (toordinal now + 6) div 7"
  have qd: "toordinal now + 6 = 7 * q + weekday now"
    unfolding q_def weekday_def by simp
  have "(toordinal now + delta + 6) mod 7 = k"
  proof (cases "k - weekday now \<le> 0")
    case True
    then have "toordinal now + delta + 6 = 7 * (q + 1) + k" using qd by (simp add: delta_def)
    then show ?thesis using k int_mod_pos_eq[of _ 7 "q + 1" k] by simp
  next
    case False
    then have "toordinal now + delta + 6 = 7 * q + k" using qd by (simp add: delta_def)
    then show ?thesis using k int_mod_pos_eq[of _ 7 q k] by simp
  qed
  then have wk: "weekday (at_midnight d') = k"
    unfolding weekday_def t d'(2) by simp
  show ?thesis
    using g t d'(2,3) wk dl unfolding delta_def[symmetric] by (simp add: at_midnight_def)
qed

text \<open>On Monday 2025-08-11, ``monday'' is Monday 2025-08-18.\<close>

theorem next_weekday_strictly_future_witness:
  "(''monday'', 0) \<in> set weekdays \<and> 0 \<le> toordinal (clock_at 2025 8 11 utc) \<and>
   toordinal (clock_at 2025 8 11 utc) + 7 \<le> MAXORDINAL \<and>
   weekday (clock_at 2025 8 11 utc) = 0 \<and>
   (\<exists>d. get_next_weekday (clock_at 2025 8 11 utc) ''monday'' = Inr d \<and>
        toordinal d = toordinal (clock_at 2025 8 11 utc) + 7 \<and> weekday d = 0) \<and>
   get_next_weekday (clock_at 2025 8 11 utc) ''monday'' =
     Inr \<lparr>year = 2025, month = 8, day = 18, hour = 0, minute = 0, second = 0,
          microsecond = 0, tzinfo = Some utc\<rparr>"
proof -
  have h1: "(''monday'', 0) \<in> set weekdays" by (simp add: weekdays_def)
  have h2: "0 \<le> toordinal (clock_at 2025 8 11 utc)" by (simp add: cal_eval)
  have h3: "toordinal (clock_at 2025 8 11 utc) + 7 \<le> MAXORDINAL" by (simp add: cal_eval)
  have w: "weekday (clock_at 2025 8 11 utc) = 0" by (simp add: cal_eval)
  have g: "get_next_weekday (clock_at 2025 8 11 utc) ''monday'' =
     Inr \<lparr>year = 2025, month = 8, day = 18, hour = 0, minute = 0, second = 0,
          microsecond = 0, tzinfo = Some utc\<rparr>"
    by (simp add: get_next_weekday_def weekdays_def lower_def lower_char_def cal_eval)
  from next_weekday_strictly_future[OF h1 h2 h3] w
  have "\<exists>d. get_next_weekday (clock_at 2025 8 11 utc) ''monday'' = Inr d \<and>
        toordinal d = toordinal (clock_at 2025 8 11 utc) + 7 \<and> weekday d = 0"
    by auto
  with h1 h2 h3 w g show ?thesis by blast
qed

lemma toordinal_at_midnight: "toordinal (at_midnight d) = toordinal d"
  by (simp add: toordinal_def at_midnight_def)

lemma toordinal_at_end_of_day: "toordinal (at_end_of_day d) = toordinal d"
  by (simp add: toordinal_def at_end_of_day_def)

lemma weekday_at_midnight: "weekday (at_midnight d) = weekday d"
  by (simp add: weekday_def toordinal_at_midnight)

lemma at_midnight_sel:
  "hour (at_midnight d) = 0" "minute (at_midnight d) = 0" "second (at_midnight d) = 0"
  "microsecond (at_midnight d) = 0" "tzinfo (at_midnight d) = tzinfo d"
  "year (at_midnight d) = year d" "month (at_midnight d) = month d" "day (at_midnight d) = day d"
  by (simp_all add: at_midnight_def)

lemma at_end_of_day_sel:
  "hour (at_end_of_day d) = 23" "minute (at_end_of_day d) = 59" "second (at_end_of_day d) = 59"
  "microsecond (at_end_of_day d) = 999999" "tzinfo (at_end_of_day d) = tzinfo d"
  by (simp_all add: at_end_of_day_def)

lemma weekday_at_end_of_day: "weekday (at_end_of_day d) = weekday d"
  by (simp add: weekday_def toordinal_at_end_of_day)

lemma sunday_of_week:
  assumes "weekday s = 0" "toordinal e = toordinal s + 6"
  shows "weekday e = 6"
proof -
  have "(toordinal s + 6) mod 7 = 0" using assms(1) by (simp add: weekday_def)
  then have "toordinal s + 6 = 7 * ((toordinal s + 6) div 7)"
    using mult_div_mod_eq[of 7 "toordinal s + 6"] by linarith
  then have "toordinal e + 6 = 7 * ((toordinal s + 6) div 7) + 6" using assms(2) by linarith
  then show ?thesis
    unfolding weekday_def using int_mod_pos_eq[of "toordinal e + 6" 7 "(toordinal s + 6) div 7" 6]
    by simp
qed

lemma monday_of_week: "(n - (n + 6) mod 7 + 6) mod 7 = (0::int)"
proof -
  have "n - (n + 6) mod 7 + 6 = 7 * ((n + 6) div 7)"
    using mult_div_mod_eq[of 7 "n + 6"] by linarith
  then show ?thesis by simp
qed

section \<open>Week boundaries\<close>

text \<open>
  Claim C5. Weeks run from Monday to Sunday. Whatever the current time, a query
  classified \<open>this_week\<close> yields the range from the Monday on or before today, at
  00:00:00, to the Sunday six days later, at 23:59:59.999999; a query classified
  \<open>next_week\<close> yields the range from the first Monday after today to the Sunday six
  days later, with the same times of day. (The current date is taken at least a week
  after 0001-01-01 and two weeks before 9999-12-31.)
\<close>

theorem week_boundaries:
  assumes "now = datetime_now env (parse_timezone env tzs)"
    and "7 \<le> toordinal now" and "toordinal now + 13 \<le> MAXORDINAL"
  shows "(spec_classify q = Some This_week \<longrightarrow>
           (\<exists>s e. parse_query env q tzs =
                    Inr \<lparr>intent = Date_range_intent s e, timezone = tzs, original_query = q\<rparr> \<and>
                  weekday s = 0 \<and> toordinal s \<le> toordinal now \<and> toordinal now < toordinal s + 7 \<and>
                  toordinal e = toordinal s + 6 \<and> weekday e = 6 \<and>
                  hour s = 0 \<and> minute s = 0 \<and> second s = 0 \<and> microsecond s = 0 \<and>
                  hour e = 23 \<and> minute e = 59 \<and> second e = 59 \<and> microsecond e = 999999 \<and>
                  tzinfo s = tzinfo now \<and> tzinfo e = tzinfo now)) \<and>
         (spec_classify q = Some Next_week \<longrightarrow>
           (\<exists>s e. parse_query env q tzs =
                    Inr \<lparr>intent = Date_range_intent s e, timezone = tzs, original_query = q\<rparr> \<and>
                  weekday s = 0 \<and> toordinal now < toordinal s \<and> toordinal s \<le> toordinal now + 7 \<and>
                  toordinal e = toordinal s + 6 \<and> weekday e = 6 \<and>
                  hour s = 0 \<and> minute s = 0 \<and> second s = 0 \<and> microsecond s = 0 \<and>
                  hour e = 23 \<and> minute e = 59 \<and> second e = 59 \<and> microsecond e = 999999 \<and>
                  tzinfo s = tzinfo now \<and> tzinfo e = tzinfo now))"
proof -
  define n where "n = toordinal now"
  define wd where "wd = weekday now"
  have wd: "0 \<le> wd" "wd < 7" unfolding wd_def using weekday_range by simp_all
  have wdn: "wd = (n + 6) mod 7" by (simp add: wd_def n_def weekday_def)
  have n: "7 \<le> n" "n + 13 \<le> MAXORDINAL" using assms n_def by simp_all
  have this_week: "\<exists>s e. spec_dispatch env q tzs (Some This_week) =
                    Inr \<lparr>intent = Date_range_intent s e, timezone = tzs, original_query = q\<rparr> \<and>
                  weekday s = 0 \<and> toordinal s \<le> toordinal now \<and> toordinal now < toordinal s + 7 \<and>
                  toordinal e = toordinal s + 6 \<and> weekday e = 6 \<and>
                  hour s = 0 \<and> minute s = 0 \<and> second s = 0 \<and> microsecond s = 0 \<and>
                  hour e = 23 \<and> minute e = 59 \<and> second e = 59 \<and> microsecond e = 999999 \<and>
                  tzinfo s = tzinfo now \<and> tzinfo e = tzinfo now"
  proof -
    have "0 < toordinal now + (- wd)" "toordinal now + (- wd) \<le> MAXORDINAL"
      using n wd n_def by linarith+
    from add_days_Inr[OF this] obtain s where s:
      "add_days now (- wd) = Inr s" "toordinal s = n - wd" "tzinfo s = tzinfo now"
      unfolding n_def by auto
    have "0 < toordinal s + 6" "toordinal s + 6 \<le> MAXORDINAL"
      using n wd s(2) by linarith+
    from add_days_Inr[OF this] obtain e where e:
      "add_days s 6 = Inr e" "toordinal e = toordinal s + 6" "tzinfo e = tzinfo s"
      by auto
    have d: "spec_dispatch env q tzs (Some This_week) =
        Inr \<lparr>intent = Date_range_intent (at_midnight s) (at_end_of_day e), timezone = tzs,
             original_query = q\<rparr>"
      unfolding spec_dispatch_def Let_def assms(1)[symmetric] wd_def[symmetric]
      using s(1) e(1) by (simp add: result_def)
    have "weekday (at_midnight s) = (n - (n + 6) mod 7 + 6) mod 7"
      by (simp only: weekday_def toordinal_at_midnight s(2) wdn)
    then have w0: "weekday (at_midnight s) = 0"
      by (simp only: monday_of_week)
    have "toordinal (at_end_of_day e) = toordinal (at_midnight s) + 6"
      using e(2) by (simp add: toordinal_at_midnight toordinal_at_end_of_day)
    then have w6: "weekday (at_end_of_day e) = 6" using w0 sunday_of_week by blast
    show ?thesis
      using d w0 w6 s(2,3) e(2,3) wd
      by (simp add: toordinal_at_midnight toordinal_at_end_of_day n_def[symmetric]
            at_midnight_sel at_end_of_day_sel)
  qed
  have next_week: "\<exists>s e. spec_dispatch env q tzs (Some Next_week) =
                    Inr \<lparr>intent = Date_range_intent s e, timezone = tzs, original_query = q\<rparr> \<and>
                  weekday s = 0 \<and> toordinal now < toordinal s \<and> toordinal s \<le> toordinal now + 7 \<and>
                  toordinal e = toordinal s + 6 \<and> weekday e = 6 \<and>
                  hour s = 0 \<and> minute s = 0 \<and> second s = 0 \<and> microsecond s = 0 \<and>
                  hour e = 23 \<and> minute e = 59 \<and> second e = 59 \<and> microsecond e = 999999 \<and>
                  tzinfo s = tzinfo now \<and> tzinfo e = tzinfo now"
  proof -
    have "0 < toordinal now + (7 - wd)" "toordinal now + (7 - wd) \<le> MAXORDINAL"
      using n wd n_def by linarith+
    from add_days_Inr[OF this] obtain s where s:
      "add_days now (7 - wd) = Inr s" "toordinal s = n + 7 - wd" "tzinfo s = tzinfo now"
      unfolding n_def by auto
    have "0 < toordinal s + 6" "toordinal s + 6 \<le> MAXORDINAL"
      using n wd s(2) by linarith+
    from add_days_Inr[OF this] obtain e where e:
      "add_days s 6 = Inr e" "toordinal e = toordinal s + 6" "tzinfo e = tzinfo s"
      by auto
    have d: "spec_dispatch env q tzs (Some Next_week) =
        Inr \<lparr>intent = Date_range_intent (at_midnight s) (at_end_of_day e), timezone = tzs,
             original_query = q\<rparr>"
      unfolding spec_dispatch_def Let_def assms(1)[symmetric] wd_def[symmetric]
      using s(1) e(1) by (simp add: result_def)
    have "n + 7 - wd + 6 = (n - (n + 6) mod 7 + 6) + 7"
      unfolding wdn by simp
    then have "(n + 7 - wd + 6) mod 7 = (n - (n + 6) mod 7 + 6) mod 7"
      by (simp only: mod_add_self2)
    moreover have "weekday (at_midnight s) = (n + 7 - wd + 6) mod 7"
      by (simp only: weekday_def toordinal_at_midnight s(2))
    ultimately have w0: "weekday (at_midnight s) = 0"
      by (simp only: monday_of_week)
    have "toordinal (at_end_of_day e) = toordinal (at_midnight s) + 6"
      using e(2) by (simp add: toordinal_at_midnight toordinal_at_end_of_day)
    then have w6: "weekday (at_end_of_day e) = 6" using w0 sunday_of_week by blast
    show ?thesis
      using d w0 w6 s(2,3) e(2,3) wd
      by (simp add: toordinal_at_midnight toordinal_at_end_of_day n_def[symmetric]
            at_midnight_sel at_end_of_day_sel)
  qed
  show ?thesis using this_week next_week by (simp add: parse_query_dispatch)
qed

text \<open>
  On Wednesday 2025-08-13, ``this week'' is 2025-08-11 00:00:00 to 2025-08-17
  23:59:59.999999 and ``next week'' is 2025-08-18 00:00:00 to 2025-08-24 23:59:59.999999.
\<close>

theorem week_boundaries_witness:
  "7 \<le> toordinal (clock_at 2025 8 13 utc) \<and>
   toordinal (clock_at 2025 8 13 utc) + 13 \<le> MAXORDINAL \<and>
   weekday (clock_at 2025 8 13 utc) = 2 \<and>
   spec_classify ''this week'' = Some This_week \<and>
   spec_classify ''next week'' = Some Next_week \<and>
   (\<exists>s e. parse_query (sample_env (clock_at 2025 8 13) 2025) ''this week'' None =
            Inr \<lparr>intent = Date_range_intent s e, timezone = None, original_query = ''this week''\<rparr> \<and>
          weekday s = 0 \<and> toordinal e = toordinal s + 6) \<and>
   parse_query (sample_env (clock_at 2025 8 13) 2025) ''this week'' None =
     Inr \<lparr>intent = Date_range_intent
            \<lparr>year = 2025, month = 8, day = 11, hour = 0, minute = 0, second = 0,
             microsecond = 0, tzinfo = Some utc\<rparr>
            \<lparr>year = 2025, month = 8, day = 17, hour = 23, minute = 59, second = 59,
             microsecond = 999999, tzinfo = Some utc\<rparr>,
          timezone = None, original_query = ''this week''\<rparr> \<and>
   parse_query (sample_env (clock_at 2025 8 13) 2025) ''next week'' None =
     Inr \<lparr>intent = Date_range_intent
            \<lparr>year = 2025, month = 8, day = 18, hour = 0, minute = 0, second = 0,
             microsecond = 0, tzinfo = Some utc\<rparr>
            \<lparr>year = 2025, month = 8, day = 24, hour = 23, minute = 59, second = 59,
             microsecond = 999999, tzinfo = Some utc\<rparr>,
          timezone = None, original_query = ''next week''\<rparr>"
proof -
  let ?env = "sample_env (clock_at 2025 8 13) 2025"
  have now: "clock_at 2025 8 13 utc = datetime_now ?env (parse_timezone ?env None)"
    by (simp add: sample_env_def parse_timezone_def)
  have h2: "7 \<le> toordinal (clock_at 2025 8 13 utc)" by (simp add: cal_eval)
  have h3: "toordinal (clock_at 2025 8 13 utc) + 13 \<le> MAXORDINAL" by (simp add: cal_eval)
  have w: "weekday (clock_at 2025 8 13 utc) = 2" by (simp add: cal_eval)
  have c1: "spec_classify ''this week'' = Some This_week"
    by (simp add: spec_classify_def category_order_def rx_eval)
  have c2: "spec_classify ''next week'' = Some Next_week"
    by (simp add: spec_classify_def category_order_def rx_eval)
  have e1: "spec_dispatch ?env ''this week'' None (Some This_week) =
     Inr \<lparr>intent = Date_range_intent
            \<lparr>year = 2025, month = 8, day = 11, hour = 0, minute = 0, second = 0,
             microsecond = 0, tzinfo = Some utc\<rparr>
            \<lparr>year = 2025, month = 8, day = 17, hour = 23, minute = 59, second = 59,
             microsecond = 999999, tzinfo = Some utc\<rparr>,
          timezone = None, original_query = ''this week''\<rparr>"
    by (simp add: spec_dispatch_def sample_env_def parse_timezone_def result_def cal_eval)
  have e2: "spec_dispatch ?env ''next week'' None (Some Next_week) =
     Inr \<lparr>intent = Date_range_intent
            \<lparr>year = 2025, month = 8, day = 18, hour = 0, minute = 0, second = 0,
             microsecond = 0, tzinfo = Some utc\<rparr>
            \<lparr>year = 2025, month = 8, day = 24, hour = 23, minute = 59, second = 59,
             microsecond = 999999, tzinfo = Some utc\<rparr>,
          timezone = None, original_query = ''next week''\<rparr>"
    by (simp add: spec_dispatch_def sample_env_def parse_timezone_def result_def cal_eval)
  from week_boundaries[OF now h2 h3, of "''this week''"] c1
  have ex: "\<exists>s e. parse_query ?env ''this week'' None =
            Inr \<lparr>intent = Date_range_intent s e, timezone = None, original_query = ''this week''\<rparr> \<and>
          weekday s = 0 \<and> toordinal e = toordinal s + 6"
    by blast
  have p1: "parse_query ?env ''this week'' None = spec_dispatch ?env ''this week'' None (Some This_week)"
    using parse_query_dispatch[of ?env "''this week''" None] c1 by simp
  have p2: "parse_query ?env ''next week'' None = spec_dispatch ?env ''next week'' None (Some Next_week)"
    using parse_query_dispatch[of ?env "''next week''" None] c2 by simp
  show ?thesis
    using h2 h3 w c1 c2 ex p1 p2 e1 e2 by (simp only:)
qed

section \<open>Order of classification\<close>

lemma matches_word_first:
  assumes "contains_word w text" "w \<noteq> []" "is_word (hd w)" "is_word (last w)"
  shows "matches_patterns text (seqs [WordB, Lit w, WordB] # rest)"
  using contains_word_search[OF assms, of True] by simp

text \<open>
  Claim C3. \<open>parse_query\<close> is the dispatch table applied to the first category, in the
  order today, tomorrow, yesterday, this_week, next_week, upcoming, specific_date, one of
  whose patterns matches. In particular a query that contains the word ``today'' is
  classified \<open>today\<close> and resolved to today's date at midnight, whatever else it
  contains, a date literal included.
\<close>

theorem classification_order:
  "category_order = [Today, Tomorrow, Yesterday, This_week, Next_week, Upcoming, Specific_date] \<and>
   parse_query env q tzs = spec_dispatch env q tzs (spec_classify q) \<and>
   (contains_word ''today'' (lower q) \<longrightarrow>
      spec_classify q = Some Today \<and>
      parse_query env q tzs =
        Inr \<lparr>intent = Specific_date_intent (at_midnight (datetime_now env (parse_timezone env tzs))),
             timezone = tzs, original_query = q\<rparr>)"
proof -
  have d: "parse_query env q tzs = spec_dispatch env q tzs (spec_classify q)"
    unfolding parse_query_def spec_dispatch_def spec_classify_def category_order_def Let_def
    by simp
  have t: "spec_classify q = Some Today" if "contains_word ''today'' (lower q)"
  proof -
    have "matches_patterns (lower q) (patterns Today)"
      unfolding patterns.simps by (rule matches_word_first[OF that]) (simp_all add: is_word_def)
    then show ?thesis by (simp add: spec_classify_def category_order_def)
  qed
  have r: "spec_dispatch env q tzs (Some Today) =
        Inr \<lparr>intent = Specific_date_intent (at_midnight (datetime_now env (parse_timezone env tzs))),
             timezone = tzs, original_query = q\<rparr>"
    by (simp add: spec_dispatch_def result_def)
  show ?thesis using d t r by (simp add: category_order_def)
qed

text \<open>
  ``today at noon on 2025-08-12'', asked on 2025-08-13: the literal date matches the
  specific-date patterns, and the answer is 2025-08-13.
\<close>

theorem classification_order_witness:
  "contains_word ''today'' (lower ''today at noon on 2025-08-12'') \<and>
   matches_patterns (lower ''today at noon on 2025-08-12'') (patterns Specific_date) \<and>
   spec_classify ''today at noon on 2025-08-12'' = Some Today \<and>
   parse_query (sample_env (clock_at 2025 8 13) 2025) ''today at noon on 2025-08-12'' None =
     Inr \<lparr>intent = Specific_date_intent
            \<lparr>year = 2025, month = 8, day = 13, hour = 0, minute = 0, second = 0,
             microsecond = 0, tzinfo = Some utc\<rparr>,
          timezone = None, original_query = ''today at noon on 2025-08-12''\<rparr>"
proof -
  let ?q = "''today at noon on 2025-08-12''"
  let ?env = "sample_env (clock_at 2025 8 13) 2025"
  have l: "lower ?q = ?q" by (simp add: lower_def lower_char_def)
  have "?q = [] @ ''today'' @ '' at noon on 2025-08-12''" by simp
  then have c: "contains_word ''today'' (lower ?q)"
    unfolding l contains_word_def by (intro exI conjI) (assumption, simp_all add: is_word_def)
  have m: "matches_patterns (lower ?q) (patterns Specific_date)"
    unfolding l by (simp add: rx_eval)
  have n: "at_midnight (datetime_now ?env (parse_timezone ?env None)) =
      \<lparr>year = 2025, month = 8, day = 13, hour = 0, minute = 0, second = 0,
       microsecond = 0, tzinfo = Some utc\<rparr>"
    by (simp add: sample_env_def parse_timezone_def at_midnight_def clock_at_def)
  from classification_order[of ?env ?q None] c
  have "spec_classify ?q = Some Today \<and>
        parse_query ?env ?q None =
          Inr \<lparr>intent = Specific_date_intent (at_midnight (datetime_now ?env (parse_timezone ?env None))),
               timezone = None, original_query = ?q\<rparr>"
    by blast
  then show ?thesis using c m unfolding n by blast
qed

section \<open>Order of the weekday table\<close>

lemma first_day_find:
  "first_day text tbl = map_option fst (List.find (\<lambda>(d, ps). matches_patterns text ps) tbl)"
  by (induction tbl) (auto split: prod.splits)

text \<open>
  Claim C10. \<open>_extract_day_of_week\<close> goes through the weekday table in the order
  monday, tuesday, ..., sunday and returns the first day one of whose aliases matches;
  where the alias stands in the text plays no part. In particular every text that
  contains the word ``monday'' resolves to monday, whichever other weekdays it names.
\<close>

theorem weekday_table_order:
  "map fst day_patterns =
     [''monday'', ''tuesday'', ''wednesday'', ''thursday'', ''friday'', ''saturday'', ''sunday''] \<and>
   extract_day_of_week text =
     map_option fst (List.find (\<lambda>(d, ps). matches_patterns text ps) day_patterns) \<and>
   (contains_word ''monday'' text \<longrightarrow> extract_day_of_week text = Some ''monday'')"
proof -
  have o: "map fst day_patterns =
     [''monday'', ''tuesday'', ''wednesday'', ''thursday'', ''friday'', ''saturday'', ''sunday'']"
    by (simp add: day_patterns_def)
  have f: "extract_day_of_week text =
     map_option fst (List.find (\<lambda>(d, ps). matches_patterns text ps) day_patterns)"
    unfolding extract_day_of_week_def by (rule first_day_find)
  have m: "extract_day_of_week text = Some ''monday''" if "contains_word ''monday'' text"
  proof -
    have "matches_patterns text [seqs [WordB, Lit ''monday'', WordB], seqs [WordB, Lit ''mon'', WordB]]"
      by (rule matches_word_first[OF that]) (simp_all add: is_word_def)
    then show ?thesis
      unfolding extract_day_of_week_def day_patterns_def first_day.simps by (simp only: if_True)
  qed
  show ?thesis using o f m by blast
qed

text \<open>
  ``sunday or monday'' names sunday first, and is resolved to monday: asked on Wednesday
  2025-08-13, to Monday 2025-08-18.
\<close>

theorem weekday_table_order_witness:
  "contains_word ''sunday'' ''sunday or monday'' \<and> contains_word ''monday'' ''sunday or monday'' \<and>
   extract_day_of_week ''sunday or monday'' = Some ''monday'' \<and>
   parse_query (sample_env (clock_at 2025 8 13) 2025) ''sunday or monday'' None =
     Inr \<lparr>intent = Specific_date_intent
            \<lparr>year = 2025, month = 8, day = 18, hour = 0, minute = 0, second = 0,
             microsecond = 0, tzinfo = Some utc\<rparr>,
          timezone = None, original_query = ''sunday or monday''\<rparr>"
proof -
  let ?q = "''sunday or monday''"
  let ?env = "sample_env (clock_at 2025 8 13) 2025"
  have "?q = [] @ ''sunday'' @ '' or monday''" by simp
  then have s: "contains_word ''sunday'' ?q"
    unfolding contains_word_def by (intro exI conjI) (assumption, simp_all add: is_word_def)
  have "?q = ''sunday or '' @ ''monday'' @ []" by simp
  then have m: "contains_word ''monday'' ?q"
    unfolding contains_word_def by (intro exI conjI) (assumption, simp_all add: is_word_def)
  from weekday_table_order[of ?q] m have e: "extract_day_of_week ?q = Some ''monday''"
    by blast
  have l: "lower ?q = ?q" by (simp add: lower_def lower_char_def)
  have c: "spec_classify ?q = None"
    by (simp add: spec_classify_def category_order_def rx_eval)
  have g: "get_next_weekday (clock_at 2025 8 13 utc) ''monday'' =
     Inr \<lparr>year = 2025, month = 8, day = 18, hour = 0, minute = 0, second = 0,
          microsecond = 0, tzinfo = Some utc\<rparr>"
    by (simp add: get_next_weekday_def weekdays_def lower_def lower_char_def cal_eval)
  have "parse_query ?env ?q None = spec_dispatch ?env ?q None None"
    using parse_query_dispatch[of ?env ?q None] c by simp
  also have "\<dots> = Inr \<lparr>intent = Specific_date_intent
            \<lparr>year = 2025, month = 8, day = 18, hour = 0, minute = 0, second = 0,
             microsecond = 0, tzinfo = Some utc\<rparr>,
          timezone = None, original_query = ?q\<rparr>"
    unfolding spec_dispatch_def weekday_or_default_def l e
    by (simp add: sample_env_def parse_timezone_def g result_def)
  finally show ?thesis using s m e by blast
qed

section \<open>The fallback\<close>

lemma spec_classify_None:
  "(spec_classify q = None) = (\<forall>c. \<not> matches_patterns (lower q) (patterns c))"
proof
  assume "spec_classify q = None"
  then have n: "\<forall>c \<in> set category_order. \<not> matches_patterns (lower q) (patterns c)"
    by (simp add: spec_classify_def find_None_iff)
  show "\<forall>c. \<not> matches_patterns (lower q) (patterns c)"
  proof
    fix c
    have "c \<in> set category_order" by (cases c) (simp_all add: category_order_def)
    with n show "\<not> matches_patterns (lower q) (patterns c)" by blast
  qed
next
  assume "\<forall>c. \<not> matches_patterns (lower q) (patterns c)"
  then show "spec_classify q = None" by (simp add: spec_classify_def find_None_iff)
qed

lemma spec_classify_Specific_date:
  assumes "\<forall>c. c \<noteq> Specific_date \<longrightarrow> \<not> matches_patterns (lower q) (patterns c)"
    and "matches_patterns (lower q) (patterns Specific_date)"
  shows "spec_classify q = Some Specific_date"
  using assms by (simp add: spec_classify_def category_order_def)

text \<open>
  Claim C4. A query that matches no pattern of any category and names no weekday, and
  a query that matches only the specific-date patterns, whose date extraction yields
  nothing and which names no weekday, are both answered with the upcoming events of the
  next 7 days, at most 10 of them; no error is raised.
\<close>

theorem universal_fallback:
  assumes "(\<forall>c. \<not> matches_patterns (lower q) (patterns c)) \<or>
           ((\<forall>c. c \<noteq> Specific_date \<longrightarrow> \<not> matches_patterns (lower q) (patterns c)) \<and>
            matches_patterns (lower q) (patterns Specific_date) \<and>
            extract_specific_date env q (parse_timezone env tzs) = None)"
    and "extract_day_of_week (lower q) = None"
  shows "parse_query env q tzs =
           Inr \<lparr>intent = Upcoming_events_intent 7 10, timezone = tzs, original_query = q\<rparr>"
proof -
  have w: "weekday_or_default now (lower q) tzs q =
           Inr \<lparr>intent = Upcoming_events_intent 7 10, timezone = tzs, original_query = q\<rparr>" for now
    using assms(2) by (simp add: weekday_or_default_def result_def)
  from assms(1) show ?thesis
  proof
    assume "\<forall>c. \<not> matches_patterns (lower q) (patterns c)"
    then have "spec_classify q = None" by (simp add: spec_classify_None)
    then show ?thesis
      by (simp add: parse_query_dispatch spec_dispatch_def w)
  next
    assume a: "(\<forall>c. c \<noteq> Specific_date \<longrightarrow> \<not> matches_patterns (lower q) (patterns c)) \<and>
            matches_patterns (lower q) (patterns Specific_date) \<and>
            extract_specific_date env q (parse_timezone env tzs) = None"
    then have "spec_classify q = Some Specific_date"
      using spec_classify_Specific_date by blast
    then show ?thesis using a
      by (simp add: parse_query_dispatch spec_dispatch_def w)
  qed
qed

text \<open>
  ``asdkjhasdf random text'' matches nothing; ``meet on feb 30'' matches a date pattern,
  the date parser rejects the literal, and no weekday is named. Both get the fallback.
\<close>

theorem universal_fallback_witness:
  "(\<forall>c. \<not> matches_patterns (lower ''asdkjhasdf random text'') (patterns c)) \<and>
   extract_day_of_week (lower ''asdkjhasdf random text'') = None \<and>
   parse_query (sample_env (clock_at 2025 8 13) 2025) ''asdkjhasdf random text'' None =
     Inr \<lparr>intent = Upcoming_events_intent 7 10, timezone = None,
          original_query = ''asdkjhasdf random text''\<rparr> \<and>
   \<not> matches_patterns (lower ''meet on feb 30'') (patterns Today) \<and>
   \<not> matches_patterns (lower ''meet on feb 30'') (patterns Tomorrow) \<and>
   \<not> matches_patterns (lower ''meet on feb 30'') (patterns Yesterday) \<and>
   \<not> matches_patterns (lower ''meet on feb 30'') (patterns This_week) \<and>
   \<not> matches_patterns (lower ''meet on feb 30'') (patterns Next_week) \<and>
   \<not> matches_patterns (lower ''meet on feb 30'') (patterns Upcoming) \<and>
   matches_patterns (lower ''meet on feb 30'') (patterns Specific_date) \<and>
   extract_specific_date (sample_env (clock_at 2025 8 13) 2025) ''meet on feb 30'' utc = None \<and>
   extract_day_of_week (lower ''meet on feb 30'') = None \<and>
   parse_query (sample_env (clock_at 2025 8 13) 2025) ''meet on feb 30'' None =
     Inr \<lparr>intent = Upcoming_events_intent 7 10, timezone = None,
          original_query = ''meet on feb 30''\<rparr>"
proof -
  let ?env = "sample_env (clock_at 2025 8 13) 2025"
  let ?q1 = "''asdkjhasdf random text''"
  let ?q2 = "''meet on feb 30''"
  have l1: "lower ?q1 = ?q1" by (simp add: lower_def lower_char_def)
  have l2: "lower ?q2 = ?q2" by (simp add: lower_def lower_char_def)
  have tz: "parse_timezone ?env None = utc" by (simp add: parse_timezone_def sample_env_def)
  have n1: "\<not> matches_patterns ?q1 (patterns c)" for c
    by (cases c) (simp_all add: rx_eval)
  have d1: "extract_day_of_week ?q1 = None"
    by (simp add: extract_day_of_week_def day_patterns_def rx_eval)
  have n2: "c \<noteq> Specific_date \<longrightarrow> \<not> matches_patterns ?q2 (patterns c)" for c
    by (cases c) (simp_all add: rx_eval)
  have m2: "matches_patterns ?q2 (patterns Specific_date)"
    by (simp add: rx_eval)
  have x2: "extract_specific_date ?env ?q2 utc = None"
    by (simp add: extract_specific_date_def date_patterns_def rx_eval parse_literal_def
          sample_env_def dateutil_sample_def)
  have d2: "extract_day_of_week ?q2 = None"
    by (simp add: extract_day_of_week_def day_patterns_def rx_eval)
  have r1: "parse_query ?env ?q1 None =
     Inr \<lparr>intent = Upcoming_events_intent 7 10, timezone = None, original_query = ?q1\<rparr>"
    by (rule universal_fallback) (simp_all add: l1 n1 d1)
  have r2: "parse_query ?env ?q2 None =
     Inr \<lparr>intent = Upcoming_events_intent 7 10, timezone = None, original_query = ?q2\<rparr>"
    by (rule universal_fallback) (simp_all add: l2 n2 m2 x2 d2 tz)
  have n2': "\<not> matches_patterns ?q2 (patterns Today)" "\<not> matches_patterns ?q2 (patterns Tomorrow)"
    "\<not> matches_patterns ?q2 (patterns Yesterday)" "\<not> matches_patterns ?q2 (patterns This_week)"
    "\<not> matches_patterns ?q2 (patterns Next_week)" "\<not> matches_patterns ?q2 (patterns Upcoming)"
    using n2 by simp_all
  show ?thesis unfolding l1 l2 using n1 d1 r1 n2' m2 x2 d2 r2 by blast
qed

section \<open>Totality\<close>






section \<open>The clock\<close>







section \<open>Bounds on the upcoming intent\<close>

lemma rep_run:
  assumes "(p', s') \<in> set (rep cl lo hi p s)"
  shows "\<exists>run. s = run @ s' \<and> list_all (in_class cl) run \<and> lo \<le> length run"
  using assms
proof (induction s arbitrary: lo hi p)
  case Nil
  then show ?case by (auto split: if_splits)
next
  case (Cons c cs)
  from Cons.prems consider
    (long) "in_class cl c" "(p', s') \<in> set (rep cl (lo - 1) (map_option (\<lambda>h. h - 1) hi) (Some c) cs)"
    | (stop) "lo = 0" "s' = c # cs"
    by (auto split: if_splits)
  then show ?case
  proof cases
    case long
    from Cons.IH[OF long(2)] obtain run where
      "cs = run @ s'" "list_all (in_class cl) run" "lo - 1 \<le> length run" by blast
    then have "c # cs = (c # run) @ s' \<and> list_all (in_class cl) (c # run) \<and> lo \<le> length (c # run)"
      using long(1) by auto
    then show ?thesis by blast
  next
    case stop
    then have "c # cs = [] @ s' \<and> list_all (in_class cl) [] \<and> lo \<le> length ([]::string)" by simp
    then show ?thesis by blast
  qed
qed

lemma rmatch_cap:
  assumes "grp_digit r" "cap_digits st" "st' \<in> set (rmatch ic r st)"
  shows "cap_digits st'"
  using assms
proof (induction r arbitrary: st st')
  case (Lit w)
  obtain p s g where st: "st = (p, s, g)" by (cases st) auto
  from Lit.prems(3) obtain p' s' where "st' = (p', s', g)"
    unfolding st by (auto split: option.splits)
  then show ?case using Lit.prems(2) by (simp add: cap_digits_def st)
next
  case (Cls cl)
  obtain p s g where st: "st = (p, s, g)" by (cases st) auto
  from Cls.prems(3) obtain p' s' where "st' = (p', s', g)"
    unfolding st by (auto split: list.splits if_splits)
  then show ?case using Cls.prems(2) by (simp add: cap_digits_def st)
next
  case WordB
  obtain p s g where st: "st = (p, s, g)" by (cases st) auto
  from WordB.prems(3) have "st' = st" unfolding st by (auto split: if_splits)
  then show ?case using WordB.prems(2) by simp
next
  case (Seq a b)
  from Seq.prems(3) obtain mid where "mid \<in> set (rmatch ic a st)" "st' \<in> set (rmatch ic b mid)"
    by auto
  moreover have "grp_digit a" "grp_digit b" using Seq.prems(1) by simp_all
  ultimately have "cap_digits mid" "st' \<in> set (rmatch ic b mid)" "grp_digit b"
    using Seq.IH(1)[OF _ Seq.prems(2)] by blast+
  then show ?case using Seq.IH(2) by blast
next
  case (Alt a b)
  have g: "grp_digit a" "grp_digit b" using Alt.prems(1) by simp_all
  from Alt.prems(3) have "st' \<in> set (rmatch ic a st) \<or> st' \<in> set (rmatch ic b st)" by simp
  then show ?case using Alt.IH(1)[OF g(1) Alt.prems(2)] Alt.IH(2)[OF g(2) Alt.prems(2)] by blast
next
  case (Opt a)
  have g: "grp_digit a" using Opt.prems(1) by simp
  from Opt.prems(3) have "st' \<in> set (rmatch ic a st) \<or> st' = st" by auto
  then show ?case using Opt.IH[OF g Opt.prems(2)] Opt.prems(2) by blast
next
  case (Rep cl lo hi)
  obtain p s g where st: "st = (p, s, g)" by (cases st) auto
  from Rep.prems(3) obtain p' s' where "st' = (p', s', g)" unfolding st by auto
  then show ?case using Rep.prems(2) by (simp add: cap_digits_def st)
next
  case (Grp a)
  obtain p s g where st: "st = (p, s, g)" by (cases st) auto
  from Grp.prems(1) obtain lo hi where a: "a = Rep Digit lo hi"
    by (cases a) (auto elim: grp_digit.elims)
  from Grp.prems(3) obtain p' s' where
    m: "(p', s') \<in> set (rep Digit lo hi p s)" and
    st': "st' = (p', s', Some (take (length s - length s') s))"
    unfolding st a by auto
  from rep_run[OF m] obtain run where "s = run @ s'" "list_all (in_class Digit) run" by blast
  then show ?case unfolding st' by (simp add: cap_digits_def list_all_iff)
qed

lemma search_from_cap:
  assumes "grp_digit r" "search_from ic r p s = Some m"
  shows "cap_digits m"
  using assms(2)
proof (induction s arbitrary: p)
  case Nil
  then obtain rest where "rmatch ic r (p, [], None) = m # rest"
    by (auto split: list.splits)
  then have "m \<in> set (rmatch ic r (p, [], None))" by simp
  moreover have "cap_digits (p, [], None)" by (simp add: cap_digits_def)
  ultimately show ?case using rmatch_cap[OF assms(1)] by blast
next
  case (Cons c cs)
  show ?case
  proof (cases "rmatch ic r (p, c # cs, None)")
    case Nil
    then show ?thesis using Cons by simp
  next
    case (Cons st rest)
    then have "m \<in> set (rmatch ic r (p, c # cs, None))" using Cons.prems by simp
    moreover have "cap_digits (p, c # cs, None)" by (simp add: cap_digits_def)
    ultimately show ?thesis using rmatch_cap[OF assms(1)] by blast
  qed
qed

lemma int_of_digits_nonneg:
  assumes "list_all is_digit g"
  shows "0 \<le> int_of_digits g"
proof -
  have "0 \<le> a \<Longrightarrow> list_all is_digit g \<Longrightarrow> 0 \<le> foldl (\<lambda>a c. 10 * a + digit_val c) a g" for a
  proof (induction g arbitrary: a)
    case Nil
    then show ?case by simp
  next
    case (Cons c g)
    have "0 \<le> digit_val c" using Cons.prems(2) by (simp add: is_digit_def digit_val_def Let_def)
    then have "0 \<le> 10 * a + digit_val c" using Cons.prems(1) by simp
    then show ?case using Cons.IH Cons.prems(2) by simp
  qed
  then show ?thesis using assms by (simp add: int_of_digits_def)
qed

lemma group1_nonneg:
  assumes "grp_digit r" "re_search ic r s = Some m"
  shows "0 \<le> int_of_digits (group1 m)"
proof -
  have "cap_digits m" using search_from_cap[OF assms(1)] assms(2) by (simp add: re_search_def)
  then have "list_all is_digit (group1 m)"
    by (auto simp: cap_digits_def group1_def split: option.splits)
  then show ?thesis by (rule int_of_digits_nonneg)
qed

lemma extract_number_of_days_nonneg: "0 \<le> extract_number_of_days text"
proof -
  have 1: "grp_digit rx_next_n_days" by (simp add: rx_next_n_days_def)
  have 2: "grp_digit rx_n_days" by (simp add: rx_n_days_def)
  show ?thesis
    unfolding extract_number_of_days_def
    using group1_nonneg[OF 1] group1_nonneg[OF 2] by (auto split: option.splits)
qed

lemma extract_max_results_range: "0 \<le> extract_max_results text \<and> extract_max_results text \<le> 50"
proof -
  have 1: "grp_digit rx_max_results" by (simp add: rx_max_results_def)
  show ?thesis
    unfolding extract_max_results_def
    using group1_nonneg[OF 1] by (auto split: option.splits)
qed

lemma weekday_or_default_upcoming:
  assumes "weekday_or_default now ql tzs q = Inr pq" "intent pq = Upcoming_events_intent d m"
  shows "d = 7 \<and> m = 10"
  using assms
  by (auto simp: weekday_or_default_def result_def split: option.splits sum.splits)

text \<open>
  Claim C8, as amended. In every parsed query whose intent is upcoming events,
  \<open>days_ahead\<close> is either the default 7 or the number read from the text, and so is at
  least 0 (``0 days'' gives 0); \<open>max_results\<close> is either the default 10 or the number
  read from the text cut to 50, and so lies between 0 and 50.
\<close>

theorem upcoming_bounds:
  assumes "parse_query env q tzs = Inr pq" and "intent pq = Upcoming_events_intent d m"
  shows "0 \<le> d \<and> 0 \<le> m \<and> m \<le> 50 \<and>
         ((d = 7 \<and> m = 10) \<or>
          (d = extract_number_of_days (lower q) \<and> m = extract_max_results (lower q)))"
proof -
  have "(d = 7 \<and> m = 10) \<or>
        (d = extract_number_of_days (lower q) \<and> m = extract_max_results (lower q))"
  proof (cases "spec_classify q")
    case None
    then show ?thesis using assms weekday_or_default_upcoming
      by (auto simp: parse_query_dispatch spec_dispatch_def Let_def)
  next
    case (Some c)
    then show ?thesis using assms weekday_or_default_upcoming
      by (cases c)
         (auto simp: parse_query_dispatch spec_dispatch_def Let_def result_def
               split: sum.splits option.splits)
  qed
  then show ?thesis
    using extract_number_of_days_nonneg[of "lower q"] extract_max_results_range[of "lower q"]
    by auto
qed

text \<open>``upcoming 0 days'' and ``next 75 events''.\<close>

theorem upcoming_bounds_witness:
  "parse_query (sample_env (clock_at 2025 8 13) 2025) ''upcoming 0 days'' None =
     Inr \<lparr>intent = Upcoming_events_intent 0 10, timezone = None,
          original_query = ''upcoming 0 days''\<rparr> \<and>
   parse_query (sample_env (clock_at 2025 8 13) 2025) ''next 75 events'' None =
     Inr \<lparr>intent = Upcoming_events_intent 7 50, timezone = None,
          original_query = ''next 75 events''\<rparr> \<and>
   (0::int) \<le> 0 \<and> (0::int) \<le> 10 \<and> (10::int) \<le> 50 \<and>
   extract_number_of_days (lower ''upcoming 0 days'') = 0 \<and>
   extract_max_results (lower ''upcoming 0 days'') = 10"
proof -
  let ?env = "sample_env (clock_at 2025 8 13) 2025"
  have c1: "spec_classify ''upcoming 0 days'' = Some Upcoming"
    by (simp add: spec_classify_def category_order_def rx_eval)
  have c2: "spec_classify ''next 75 events'' = Some Upcoming"
    by (simp add: spec_classify_def category_order_def rx_eval)
  have l1: "lower ''upcoming 0 days'' = ''upcoming 0 days''" by (simp add: lower_def lower_char_def)
  have l2: "lower ''next 75 events'' = ''next 75 events''" by (simp add: lower_def lower_char_def)
  have d1: "extract_number_of_days ''upcoming 0 days'' = 0"
    by (simp add: extract_number_of_days_def rx_next_week_def rx_this_week_def rx_next_n_days_def
          rx_n_days_def rx_eval int_of_digits_def digit_val_def)
  have m1: "extract_max_results ''upcoming 0 days'' = 10"
    by (simp add: extract_max_results_def rx_max_results_def rx_eval)
  have d2: "extract_number_of_days ''next 75 events'' = 7"
    by (simp add: extract_number_of_days_def rx_next_week_def rx_this_week_def rx_next_n_days_def
          rx_n_days_def rx_eval int_of_digits_def digit_val_def)
  have m2: "extract_max_results ''next 75 events'' = 50"
    by (simp add: extract_max_results_def rx_max_results_def rx_eval int_of_digits_def digit_val_def)
  have r1: "parse_query ?env ''upcoming 0 days'' None =
     Inr \<lparr>intent = Upcoming_events_intent 0 10, timezone = None,
          original_query = ''upcoming 0 days''\<rparr>"
    unfolding parse_query_dispatch c1 spec_dispatch_def Let_def l1 d1 m1 by (simp add: result_def)
  have r2: "parse_query ?env ''next 75 events'' None =
     Inr \<lparr>intent = Upcoming_events_intent 7 50, timezone = None,
          original_query = ''next 75 events''\<rparr>"
    unfolding parse_query_dispatch c2 spec_dispatch_def Let_def l2 d2 m2 by (simp add: result_def)
  from upcoming_bounds[OF r1] have "(0::int) \<le> 0 \<and> (0::int) \<le> 10 \<and> (10::int) \<le> 50"
    by simp
  then show ?thesis using r1 r2 d1 m1 unfolding l1 by blast
qed

text \<open>
  The claim as stated fails: \<open>days_ahead\<close> is not always at least 1.
\<close>

theorem days_ahead_counterexample:
  "\<not> (\<forall>env q tzs pq d m. parse_query env q tzs = Inr pq \<and> intent pq = Upcoming_events_intent d m
         \<longrightarrow> 1 \<le> d \<and> m \<le> 50)"
proof
  assume a: "\<forall>env q tzs pq d m. parse_query env q tzs = Inr pq \<and> intent pq = Upcoming_events_intent d m
         \<longrightarrow> 1 \<le> d \<and> m \<le> 50"
  let ?env = "sample_env (clock_at 2025 8 13) 2025"
  have c1: "spec_classify ''upcoming 0 days'' = Some Upcoming"
    by (simp add: spec_classify_def category_order_def rx_eval)
  have l1: "lower ''upcoming 0 days'' = ''upcoming 0 days''" by (simp add: lower_def lower_char_def)
  have d1: "extract_number_of_days ''upcoming 0 days'' = 0"
    by (simp add: extract_number_of_days_def rx_next_week_def rx_this_week_def rx_next_n_days_def
          rx_n_days_def rx_eval int_of_digits_def digit_val_def)
  have m1: "extract_max_results ''upcoming 0 days'' = 10"
    by (simp add: extract_max_results_def rx_max_results_def rx_eval)
  have r1: "parse_query ?env ''upcoming 0 days'' None =
     Inr \<lparr>intent = Upcoming_events_intent 0 10, timezone = None,
          original_query = ''upcoming 0 days''\<rparr>"
    unfolding parse_query_dispatch c1 spec_dispatch_def Let_def l1 d1 m1 by (simp add: result_def)
  have "intent \<lparr>intent = Upcoming_events_intent 0 10, timezone = None,
          original_query = ''upcoming 0 days''\<rparr> = Upcoming_events_intent 0 10"
    by simp
  with a r1 have "(1::int) \<le> 0" by blast
  then show False by simp
qed

section \<open>The group is always set\<close>

lemma rmatch_keeps_group:
  assumes "st' \<in> set (rmatch ic r st)" "snd (snd st) \<noteq> None"
  shows "snd (snd st') \<noteq> None"
  using assms
proof (induction r arbitrary: st st')
  case (Lit w)
  obtain p s g where st: "st = (p, s, g)" by (cases st) auto
  from Lit.prems(1) obtain p' s' where "st' = (p', s', g)"
    unfolding st by (auto split: option.splits)
  then show ?case using Lit.prems(2) by (simp add: st)
next
  case (Cls cl)
  obtain p s g where st: "st = (p, s, g)" by (cases st) auto
  from Cls.prems(1) obtain p' s' where "st' = (p', s', g)"
    unfolding st by (auto split: list.splits if_splits)
  then show ?case using Cls.prems(2) by (simp add: st)
next
  case WordB
  obtain p s g where st: "st = (p, s, g)" by (cases st) auto
  from WordB.prems(1) have "st' = st" unfolding st by (auto split: if_splits)
  then show ?case using WordB.prems(2) by simp
next
  case (Seq a b)
  from Seq.prems(1) obtain mid where m: "mid \<in> set (rmatch ic a st)" "st' \<in> set (rmatch ic b mid)"
    by auto
  have "snd (snd mid) \<noteq> None" using Seq.IH(1)[OF m(1) Seq.prems(2)] .
  then show ?case using Seq.IH(2)[OF m(2)] by blast
next
  case (Alt a b)
  from Alt.prems(1) have "st' \<in> set (rmatch ic a st) \<or> st' \<in> set (rmatch ic b st)" by simp
  then show ?case using Alt.IH(1)[OF _ Alt.prems(2)] Alt.IH(2)[OF _ Alt.prems(2)] by blast
next
  case (Opt a)
  from Opt.prems(1) have "st' \<in> set (rmatch ic a st) \<or> st' = st" by auto
  then show ?case using Opt.IH[OF _ Opt.prems(2)] Opt.prems(2) by blast
next
  case (Rep cl lo hi)
  obtain p s g where st: "st = (p, s, g)" by (cases st) auto
  from Rep.prems(1) obtain p' s' where "st' = (p', s', g)" unfolding st by auto
  then show ?case using Rep.prems(2) by (simp add: st)
next
  case (Grp a)
  obtain p s g where st: "st = (p, s, g)" by (cases st) auto
  from Grp.prems(1) obtain p' s' h where "st' = (p', s', Some h)" unfolding st by auto
  then show ?case by simp
qed

lemma rmatch_sets_group:
  assumes "has_grp r" "st' \<in> set (rmatch ic r st)"
  shows "snd (snd st') \<noteq> None"
  using assms
proof (induction r arbitrary: st st')
  case (Seq a b)
  from Seq.prems(2) obtain mid where m: "mid \<in> set (rmatch ic a st)" "st' \<in> set (rmatch ic b mid)"
    by auto
  from Seq.prems(1) have "has_grp a \<or> has_grp b" by simp
  then show ?case
  proof
    assume "has_grp a"
    then have "snd (snd mid) \<noteq> None" using Seq.IH(1) m(1) by blast
    then show ?thesis using rmatch_keeps_group[OF m(2)] by blast
  next
    assume "has_grp b"
    then show ?thesis using Seq.IH(2) m(2) by blast
  qed
next
  case (Alt a b)
  from Alt.prems(2) have "st' \<in> set (rmatch ic a st) \<or> st' \<in> set (rmatch ic b st)" by simp
  moreover have "has_grp a" "has_grp b" using Alt.prems(1) by simp_all
  ultimately show ?case using Alt.IH by blast
next
  case (Grp a)
  obtain p s g where st: "st = (p, s, g)" by (cases st) auto
  from Grp.prems(2) obtain p' s' h where "st' = (p', s', Some h)" unfolding st by auto
  then show ?case by simp
qed simp_all

lemma search_from_member:
  assumes "search_from ic r p s = Some m"
  shows "\<exists>q t. m \<in> set (rmatch ic r (q, t, None))"
  using assms
proof (induction s arbitrary: p)
  case Nil
  then show ?case by (auto split: list.splits) (metis list.set_intros(1))
next
  case (Cons c cs)
  show ?case
  proof (cases "rmatch ic r (p, c # cs, None)")
    case Nil
    then show ?thesis using Cons by simp
  next
    case (Cons st rest)
    then have "m \<in> set (rmatch ic r (p, c # cs, None))" using Cons.prems by simp
    then show ?thesis by blast
  qed
qed

text \<open>
  \<open>match.group(1)\<close> is never \<open>None\<close> where the source reads it: in each of the three
  quantity patterns and the six date patterns every match passes through the group.
\<close>

theorem group_always_set:
  "r \<in> set ([rx_next_n_days, rx_n_days, rx_max_results] @ date_patterns) \<and>
   re_search ic r s = Some m \<longrightarrow> snd (snd m) \<noteq> None"
proof
  assume a: "r \<in> set ([rx_next_n_days, rx_n_days, rx_max_results] @ date_patterns) \<and>
   re_search ic r s = Some m"
  then have "has_grp r"
    by (auto simp: rx_next_n_days_def rx_n_days_def rx_max_results_def date_patterns_def)
  moreover from a obtain q t where "m \<in> set (rmatch ic r (q, t, None))"
    using search_from_member[of ic r None s m] by (auto simp: re_search_def)
  ultimately show "snd (snd m) \<noteq> None" by (rule rmatch_sets_group)
qed

theorem group_always_set_witness:
  "rx_n_days \<in> set ([rx_next_n_days, rx_n_days, rx_max_results] @ date_patterns) \<and>
   re_search False rx_n_days ''in 14 days'' = Some (Some CHR ''s'', [], Some ''14'') \<and>
   snd (snd (Some CHR ''s'', ''''::string, Some ''14'')) \<noteq> None"
proof -
  have 1: "rx_n_days \<in> set ([rx_next_n_days, rx_n_days, rx_max_results] @ date_patterns)"
    by simp
  have 2: "re_search False rx_n_days ''in 14 days'' = Some (Some CHR ''s'', [], Some ''14'')"
    by (simp add: rx_n_days_def rx_eval)
  from group_always_set[of rx_n_days False "''in 14 days''" "(Some CHR ''s'', [], Some ''14'')"] 1 2
  have "snd (snd (Some CHR ''s'', ''''::string, Some ''14'')) \<noteq> None" by blast
  with 1 2 show ?thesis by blast
qed

section \<open>A date literal without a year\<close>

text \<open>
  \<open>_extract_specific_date\<close> substitutes the current year of the resolved zone only when
  the parsed date has the year 1900, which it takes for the date parser's mark of a
  missing year; and it always returns midnight.
\<close>

lemma parse_literal_year:
  assumes "dateutil_parse env s = Inr d" and "tzinfo d = None"
    and "tz_localize env tz = (\<lambda>x. Inr (x\<lparr>tzinfo := Some tz\<rparr>))"
    and "parse_literal env tz s = Inr r"
  shows "year r = (if year d = 1900 then year (datetime_now env tz) else year d) \<and>
         month r = month d \<and> day r = day d \<and>
         hour r = 0 \<and> minute r = 0 \<and> second r = 0 \<and> microsecond r = 0 \<and> tzinfo r = Some tz"
  using assms
  by (auto simp: parse_literal_def replace_year_def at_midnight_def split: if_splits)

text \<open>
  Claim C9 at work where the host's year and the resolved zone's year are both 2026:
  ``meet on march 5'' is 2026-03-05 at midnight. The year comes from the date parser,
  which fills it in from the host's local date; the substitution of the source is not
  reached.
\<close>

lemma march_5_same_year:
  "parse_query (sample_env (clock_at 2026 6 1) 2026) ''meet on march 5'' None =
     Inr \<lparr>intent = Specific_date_intent
            \<lparr>year = 2026, month = 3, day = 5, hour = 0, minute = 0, second = 0,
             microsecond = 0, tzinfo = Some utc\<rparr>,
          timezone = None, original_query = ''meet on march 5''\<rparr>"
proof -
  let ?env = "sample_env (clock_at 2026 6 1) 2026"
  have c: "spec_classify ''meet on march 5'' = Some Specific_date"
    by (simp add: spec_classify_def category_order_def rx_eval)
  have tz: "parse_timezone ?env None = utc" by (simp add: parse_timezone_def sample_env_def)
  have x: "extract_specific_date ?env ''meet on march 5'' utc =
      Some \<lparr>year = 2026, month = 3, day = 5, hour = 0, minute = 0, second = 0,
             microsecond = 0, tzinfo = Some utc\<rparr>"
    by (simp add: extract_specific_date_def date_patterns_def rx_eval parse_literal_def
          sample_env_def dateutil_sample_def naive_date_def utc_def at_midnight_def)
  show ?thesis
    unfolding parse_query_dispatch c spec_dispatch_def Let_def tz x by (simp add: result_def)
qed

text \<open>
  Claim C9 fails where the two years differ. At 2025-12-31 12:00 UTC, on a host whose
  local zone is UTC, a query for the zone Pacific/Kiritimati has \<open>now.year = 2026\<close>,
  and ``meet on march 5'' is resolved to 2025-03-05.
\<close>

theorem missing_year_is_host_year:
  "parse_timezone (sample_env new_year_clock 2025) (Some ''Pacific/Kiritimati'') = kiritimati \<and>
   year (datetime_now (sample_env new_year_clock 2025) kiritimati) = 2026 \<and>
   parse_query (sample_env new_year_clock 2025) ''meet on march 5'' (Some ''Pacific/Kiritimati'') =
     Inr \<lparr>intent = Specific_date_intent
            \<lparr>year = 2025, month = 3, day = 5, hour = 0, minute = 0, second = 0,
             microsecond = 0, tzinfo = Some kiritimati\<rparr>,
          timezone = Some ''Pacific/Kiritimati'', original_query = ''meet on march 5''\<rparr>"
proof -
  let ?env = "sample_env new_year_clock 2025"
  have c: "spec_classify ''meet on march 5'' = Some Specific_date"
    by (simp add: spec_classify_def category_order_def rx_eval)
  have tz: "parse_timezone ?env (Some ''Pacific/Kiritimati'') = kiritimati"
    by (simp add: parse_timezone_def sample_env_def)
  have y: "year (datetime_now ?env kiritimati) = 2026"
    by (simp add: sample_env_def new_year_clock_def kiritimati_def)
  have x: "extract_specific_date ?env ''meet on march 5'' kiritimati =
      Some \<lparr>year = 2025, month = 3, day = 5, hour = 0, minute = 0, second = 0,
             microsecond = 0, tzinfo = Some kiritimati\<rparr>"
    by (simp add: extract_specific_date_def date_patterns_def rx_eval parse_literal_def
          sample_env_def dateutil_sample_def naive_date_def kiritimati_def at_midnight_def)
  have "parse_query ?env ''meet on march 5'' (Some ''Pacific/Kiritimati'') =
     Inr \<lparr>intent = Specific_date_intent
            \<lparr>year = 2025, month = 3, day = 5, hour = 0, minute = 0, second = 0,
             microsecond = 0, tzinfo = Some kiritimati\<rparr>,
          timezone = Some ''Pacific/Kiritimati'', original_query = ''meet on march 5''\<rparr>"
    unfolding parse_query_dispatch c spec_dispatch_def Let_def tz x by (simp add: result_def)
  then show ?thesis using tz y by blast
qed

text \<open>
  The mark 1900 also catches a literal that does give the year 1900: ``1/1/1900'', asked
  on 2025-08-13, is resolved to 2025-01-01.
\<close>

lemma explicit_1900_replaced:
  "parse_query (sample_env (clock_at 2025 8 13) 2025) ''1/1/1900'' None =
     Inr \<lparr>intent = Specific_date_intent
            \<lparr>year = 2025, month = 1, day = 1, hour = 0, minute = 0, second = 0,
             microsecond = 0, tzinfo = Some utc\<rparr>,
          timezone = None, original_query = ''1/1/1900''\<rparr>"
proof -
  let ?env = "sample_env (clock_at 2025 8 13) 2025"
  have c: "spec_classify ''1/1/1900'' = Some Specific_date"
    by (simp add: spec_classify_def category_order_def rx_eval)
  have tz: "parse_timezone ?env None = utc" by (simp add: parse_timezone_def sample_env_def)
  have x: "extract_specific_date ?env ''1/1/1900'' utc =
      Some \<lparr>year = 2025, month = 1, day = 1, hour = 0, minute = 0, second = 0,
             microsecond = 0, tzinfo = Some utc\<rparr>"
    by (simp add: extract_specific_date_def date_patterns_def rx_eval parse_literal_def
          sample_env_def dateutil_sample_def naive_date_def utc_def at_midnight_def
          replace_year_def valid_date_def days_in_month_def DAYS_IN_MONTH_def clock_at_def)
  show ?thesis
    unfolding parse_query_dispatch c spec_dispatch_def Let_def tz x by (simp add: result_def)
qed

section \<open>Quantities of the upcoming intent\<close>













lemma rx_n_days_start:
  "rmatch False rx_n_days (p, [], g) = []"
  "\<not> is_digit c \<Longrightarrow> rmatch False rx_n_days (p, c # cs, g) = []"
  "word_before p \<Longrightarrow> is_word c \<Longrightarrow> rmatch False rx_n_days (p, c # cs, g) = []"
  by (simp_all add: rx_n_days_def chr_eq_def word_after_def)













text \<open>
  Through \<open>parse_query\<close> the texts ``show me 75 events'' and ``next 3 days'' do not reach
  the quantity extraction: neither matches a pattern of the upcoming category, and both
  get the fallback.
\<close>

theorem quantity_texts_fall_back:
  "parse_query (sample_env (clock_at 2025 8 13) 2025) ''show me 75 events'' None =
     Inr \<lparr>intent = Upcoming_events_intent 7 10, timezone = None,
          original_query = ''show me 75 events''\<rparr> \<and>
   parse_query (sample_env (clock_at 2025 8 13) 2025) ''next 3 days'' None =
     Inr \<lparr>intent = Upcoming_events_intent 7 10, timezone = None,
          original_query = ''next 3 days''\<rparr>"
proof -
  let ?env = "sample_env (clock_at 2025 8 13) 2025"
  have c1: "spec_classify ''show me 75 events'' = None"
    by (simp add: spec_classify_def category_order_def rx_eval)
  have c2: "spec_classify ''next 3 days'' = None"
    by (simp add: spec_classify_def category_order_def rx_eval)
  have d1: "extract_day_of_week (lower ''show me 75 events'') = None"
    by (simp add: extract_day_of_week_def day_patterns_def rx_eval)
  have d2: "extract_day_of_week (lower ''next 3 days'') = None"
    by (simp add: extract_day_of_week_def day_patterns_def rx_eval)
  have r1: "parse_query ?env ''show me 75 events'' None =
     Inr \<lparr>intent = Upcoming_events_intent 7 10, timezone = None,
          original_query = ''show me 75 events''\<rparr>"
    unfolding parse_query_dispatch c1 spec_dispatch_def weekday_or_default_def d1 Let_def
    by (simp add: result_def)
  have r2: "parse_query ?env ''next 3 days'' None =
     Inr \<lparr>intent = Upcoming_events_intent 7 10, timezone = None,
          original_query = ''next 3 days''\<rparr>"
    unfolding parse_query_dispatch c2 spec_dispatch_def weekday_or_default_def d2 Let_def
    by (simp add: result_def)
  show ?thesis using r1 r2 by blast
qed

end
